theory Spec2Isabelle
  imports Main
begin

section \<open>Strings\<close>

text \<open>
  A Python \<open>str\<close> is a sequence of code points. Here a \<open>char\<close> stands for a code point
  below 256, so \<open>length\<close> is Python's \<open>len\<close> on such strings.
\<close>

text \<open>
  \<open>str.isspace\<close> on one code point below 256: the characters that \<open>str.strip()\<close>
  (called without arguments) removes.
\<close>

definition isspace :: "char \<Rightarrow> bool" where
  "isspace c \<longleftrightarrow>
     c = CHR 0x09 \<or> c = CHR 0x0A \<or> c = CHR 0x0B \<or> c = CHR 0x0C \<or> c = CHR 0x0D \<or>
     c = CHR 0x1C \<or> c = CHR 0x1D \<or> c = CHR 0x1E \<or> c = CHR 0x1F \<or> c = CHR 0x20 \<or>
     c = CHR 0x85 \<or> c = CHR 0xA0"

text \<open>\<open>s.lstrip()\<close>, \<open>s.rstrip()\<close> and \<open>s.strip()\<close>.\<close>

definition lstrip :: "string \<Rightarrow> string" where
  "lstrip s = dropWhile isspace s"

definition rstrip :: "string \<Rightarrow> string" where
  "rstrip s = rev (dropWhile isspace (rev s))"

definition strip :: "string \<Rightarrow> string" where
  "strip s = rstrip (lstrip s)"

text \<open>
  \<open>s.split(sep)\<close> for a one-character separator: the pieces between the separators,
  empty pieces kept, so the result is never empty (\<open>''.split(',') == ['']\<close>).
\<close>

fun split :: "char \<Rightarrow> string \<Rightarrow> string list" where
  "split sep [] = [[]]"
| "split sep (c # cs) =
     (if c = sep then [] # split sep cs
      else (case split sep cs of
              [] \<Rightarrow> [[c]]
            | w # ws \<Rightarrow> (c # w) # ws))"

section \<open>The models (models.py)\<close>

type_synonym date = "nat \<times> nat \<times> nat"

text \<open>
  The identity record: the web framework's \<open>User\<close> model, restricted to the columns this
  program reads or writes. \<open>user_pk\<close> is the column \<open>id\<close>.
\<close>

record user =
  user_pk :: nat
  username :: string
  email :: string
  first_name :: string
  last_name :: string
  password :: string
  is_active :: bool

text \<open>
  \<open>class UserProfile(models.Model)\<close>. \<open>profile_pk\<close> is the column \<open>id\<close>, \<open>user_id\<close> the
  one-to-one key to the identity; a column declared \<open>null=True\<close> is an option.
  Timestamps are natural numbers.
\<close>

record userprofile =
  profile_pk :: nat
  user_id :: nat
  phone_number :: "string option"
  date_of_birth :: "date option"
  location :: "string option"
  bio :: "string option"
  skills :: "string option"
  experience_years :: int
  linkedin_url :: "string option"
  github_url :: "string option"
  resume :: "string option"
  profile_picture :: "string option"
  is_recruiter :: bool
  company :: "string option"
  created_at :: nat
  updated_at :: nat

text \<open>
  The property \<open>UserProfile.full_name\<close>; the argument is \<open>self.user\<close>.
\<close>

definition full_name :: "user \<Rightarrow> string" where
  "full_name self_user = strip (first_name self_user @ '' '' @ last_name self_user)"

text \<open>
  The property \<open>UserProfile.skills_list\<close>. \<open>if self.skills\<close> is false for \<open>None\<close> and
  for the empty string; \<open>if skill.strip()\<close> is false for the empty string.
\<close>

definition skills_list :: "userprofile \<Rightarrow> string list" where
  "skills_list self =
     (case skills self of
        None \<Rightarrow> []
      | Some s \<Rightarrow>
          if s \<noteq> []
          then map strip (filter (\<lambda>skill. strip skill \<noteq> []) (split CHR '','' s))
          else [])"

section \<open>Errors, dictionaries and the store\<close>

text \<open>
  Every exception the program or the store can raise is a value. \<open>FieldErrors\<close> is the
  validator's error dictionary (field name and message), as it is returned with status 400.
\<close>

datatype error =
    ValidationError string
  | FieldErrors "(string \<times> string) list"
  | KeyError string
  | TypeError
  | ValueError
  | IntegrityError
  | DoesNotExist
  | NotAuthenticated

text \<open>
  A dictionary with string keys is an association list in insertion order; \<open>map_of\<close> is
  the lookup. \<open>pop\<close> is \<open>d.pop(key)\<close>: the value and the dictionary without the key,
  \<open>None\<close> where Python raises \<open>KeyError\<close>.
\<close>

type_synonym 'v dict = "(string \<times> 'v) list"

definition pop :: "string \<Rightarrow> 'v dict \<Rightarrow> ('v \<times> 'v dict) option" where
  "pop key d =
     (case map_of d key of
        None \<Rightarrow> None
      | Some v \<Rightarrow> Some (v, filter (\<lambda>(k, _). k \<noteq> key) d))"

text \<open>
  The relational store: the two tables and the next key of each. A table is the list of its
  rows.
\<close>

record db =
  users :: "user list"
  profiles :: "userprofile list"
  next_user_pk :: nat
  next_profile_pk :: nat

text \<open>The statement \<open>UPDATE ... WHERE id = key self\<close> on a table.\<close>

definition update_row :: "('r \<Rightarrow> nat) \<Rightarrow> 'r \<Rightarrow> 'r list \<Rightarrow> 'r list" where
  "update_row key self rows = map (\<lambda>r. if key r = key self then self else r) rows"

text \<open>
  The parts of the web framework that the program calls and that are not in its files:
  password hashing (\<open>None\<close> is the missing password) and the check of a password against a
  stored credential, the normalisation of email and username done by \<open>create_user\<close>, and
  the format and length rules that the framework generates from the identity model for the
  serializer fields \<open>username\<close>, \<open>email\<close> and \<open>first_name\<close>/\<open>last_name\<close>; each yields the
  messages of the rules that a parsed value breaks.
\<close>

record framework =
  make_password :: "string option \<Rightarrow> string"
  check_password :: "string \<Rightarrow> string \<Rightarrow> bool"
  normalize_email :: "string \<Rightarrow> string"
  normalize_username :: "string \<Rightarrow> string"
  username_rules :: "string \<Rightarrow> string list"
  email_rules :: "string \<Rightarrow> string list"
  name_rules :: "string \<Rightarrow> string list"

section \<open>The profile table and the post-save receivers (models.py)\<close>

text \<open>
  A new \<open>UserProfile(user=instance)\<close> with every column at its declared default:
  \<open>experience_years\<close> 0, \<open>is_recruiter\<close> false, every nullable column \<open>None\<close>; both
  timestamps are set when the row is added.
\<close>

definition new_userprofile :: "nat \<Rightarrow> nat \<Rightarrow> nat \<Rightarrow> userprofile" where
  "new_userprofile pk uid now =
     \<lparr>profile_pk = pk, user_id = uid, phone_number = None, date_of_birth = None,
      location = None, bio = None, skills = None, experience_years = 0,
      linkedin_url = None, github_url = None, resume = None, profile_picture = None,
      is_recruiter = False, company = None, created_at = now, updated_at = now\<rparr>"

text \<open>
  \<open>UserProfile.objects.create(user=instance)\<close>: an INSERT. The one-to-one column is unique
  and refers to an existing identity; the store raises \<open>IntegrityError\<close> otherwise.
\<close>

definition userprofile_create :: "nat \<Rightarrow> db \<Rightarrow> user \<Rightarrow> (error + userprofile) \<times> db" where
  "userprofile_create now d instance =
     (if (\<exists>p \<in> set (profiles d). user_id p = user_pk instance)
         \<or> \<not> (\<exists>u \<in> set (users d). user_pk u = user_pk instance)
      then (Inl IntegrityError, d)
      else
        let p = new_userprofile (next_profile_pk d) (user_pk instance) now
        in (Inr p, d\<lparr>profiles := profiles d @ [p],
                      next_profile_pk := Suc (next_profile_pk d)\<rparr>))"

text \<open>
  \<open>self.save()\<close> on a profile object that has a key. \<open>auto_now\<close> sets \<open>updated_at\<close> on the
  object at every save. The row with the object's key is updated; when there is none the
  object is inserted (then \<open>auto_now_add\<close> sets \<open>created_at\<close> too). The object after the
  save is returned.
\<close>

definition userprofile_save :: "nat \<Rightarrow> db \<Rightarrow> userprofile \<Rightarrow> (error + userprofile) \<times> db" where
  "userprofile_save now d self =
     (if \<exists>p \<in> set (profiles d). profile_pk p = profile_pk self
      then
        if \<exists>p \<in> set (profiles d). profile_pk p \<noteq> profile_pk self \<and> user_id p = user_id self
        then (Inl IntegrityError, d)
        else
          let self' = self\<lparr>updated_at := now\<rparr>
          in (Inr self', d\<lparr>profiles := update_row profile_pk self' (profiles d)\<rparr>)
      else
        if (\<exists>p \<in> set (profiles d). user_id p = user_id self)
           \<or> \<not> (\<exists>u \<in> set (users d). user_pk u = user_id self)
        then (Inl IntegrityError, d)
        else
          let self' = self\<lparr>created_at := now, updated_at := now\<rparr>
          in (Inr self', d\<lparr>profiles := profiles d @ [self']\<rparr>))"

text \<open>
  The receiver \<open>create_user_profile\<close>. The result is the profile it created, if any: the
  new profile becomes the cached \<open>instance.userprofile\<close>.
\<close>

definition create_user_profile ::
  "nat \<Rightarrow> db \<Rightarrow> user \<Rightarrow> bool \<Rightarrow> (error + userprofile option) \<times> db" where
  "create_user_profile now d instance created =
     (if created
      then (case userprofile_create now d instance of
              (Inl e, d') \<Rightarrow> (Inl e, d')
            | (Inr p, d') \<Rightarrow> (Inr (Some p), d'))
      else (Inr None, d))"

text \<open>
  The receiver \<open>save_user_profile\<close>: \<open>instance.userprofile.save()\<close>. \<open>instance.userprofile\<close>
  is the cached related object when the identity object has one, and is read from the store
  otherwise; reading raises when the identity has no profile.
\<close>

definition save_user_profile ::
  "nat \<Rightarrow> db \<Rightarrow> user \<Rightarrow> userprofile option \<Rightarrow> (error + userprofile) \<times> db" where
  "save_user_profile now d instance cached =
     (case (case cached of
              Some p \<Rightarrow> Some p
            | None \<Rightarrow> find (\<lambda>p. user_id p = user_pk instance) (profiles d)) of
        None \<Rightarrow> (Inl DoesNotExist, d)
      | Some p \<Rightarrow> userprofile_save now d p)"

text \<open>
  The signal \<open>post_save\<close> of the identity model: the receivers run in the order in which
  models.py registers them, and an exception of one ends the dispatch.
\<close>

definition post_save ::
  "nat \<Rightarrow> db \<Rightarrow> user \<Rightarrow> userprofile option \<Rightarrow> bool \<Rightarrow> (error + userprofile) \<times> db" where
  "post_save now d instance cached created =
     (case create_user_profile now d instance created of
        (Inl e, d1) \<Rightarrow> (Inl e, d1)
      | (Inr made, d1) \<Rightarrow>
          save_user_profile now d1 instance
            (case made of Some p \<Rightarrow> Some p | None \<Rightarrow> cached))"

text \<open>
  \<open>self.save()\<close> on an identity object that has a key, with its cached profile object (if
  any): the row is updated (inserted when there is none), the username stays unique, and
  \<open>post_save\<close> is sent. The profile object that the receivers saved is returned.
\<close>

definition user_save ::
  "nat \<Rightarrow> db \<Rightarrow> user \<Rightarrow> userprofile option \<Rightarrow> (error + userprofile) \<times> db" where
  "user_save now d self cached =
     (if \<exists>u \<in> set (users d). user_pk u = user_pk self
      then
        if \<exists>u \<in> set (users d). user_pk u \<noteq> user_pk self \<and> username u = username self
        then (Inl IntegrityError, d)
        else post_save now (d\<lparr>users := update_row user_pk self (users d)\<rparr>) self cached False
      else
        if \<exists>u \<in> set (users d). username u = username self
        then (Inl IntegrityError, d)
        else post_save now (d\<lparr>users := users d @ [self]\<rparr>) self cached True)"

text \<open>
  Modelled from the spec: \<open>User.objects.create_user(**kwargs)\<close> of the identity store, which
  is the framework's and not in the source files. The identity has a unique username
  (section 3), enforced by the store with a conflict error (section 4.2), and a hashed
  password credential (section 4.2); it is active when created. The row is inserted under
  the next key and \<open>post_save\<close> is sent with \<open>created\<close> true.
\<close>

definition create_user :: "framework \<Rightarrow> nat \<Rightarrow> db \<Rightarrow> string dict \<Rightarrow> (error + user) \<times> db" where
  "create_user fw now d kwargs =
     (case map_of kwargs ''username'' of
        None \<Rightarrow> (Inl TypeError, d)
      | Some name \<Rightarrow>
          if name = [] then (Inl ValueError, d)
          else if \<exists>k \<in> set (map fst kwargs).
                    k \<notin> set [''username'', ''email'', ''password'', ''first_name'', ''last_name'']
          then (Inl TypeError, d)
          else
            let self =
              \<lparr>user_pk = next_user_pk d,
               username = normalize_username fw name,
               email = normalize_email fw (case map_of kwargs ''email'' of None \<Rightarrow> [] | Some e \<Rightarrow> e),
               first_name = (case map_of kwargs ''first_name'' of None \<Rightarrow> [] | Some n \<Rightarrow> n),
               last_name = (case map_of kwargs ''last_name'' of None \<Rightarrow> [] | Some n \<Rightarrow> n),
               password = make_password fw (map_of kwargs ''password''),
               is_active = True\<rparr>
            in
              if \<exists>u \<in> set (users d). username u = username self
              then (Inl IntegrityError, d)
              else
                (case post_save now
                        (d\<lparr>users := users d @ [self], next_user_pk := Suc (next_user_pk d)\<rparr>)
                        self None True of
                   (Inl e, d') \<Rightarrow> (Inl e, d')
                 | (Inr _, d') \<Rightarrow> (Inr self, d')))"

text \<open>
  Modelled from the spec: deleting an identity, which no source file does itself. The
  profile's lifetime is bound to the identity (section 3), as \<open>on_delete=models.CASCADE\<close> on
  \<open>UserProfile.user\<close> declares: the store deletes the identity's profile rows with it.
\<close>

definition delete_user :: "db \<Rightarrow> nat \<Rightarrow> db" where
  "delete_user d uid =
     d\<lparr>users := filter (\<lambda>u. user_pk u \<noteq> uid) (users d),
       profiles := filter (\<lambda>p. user_id p \<noteq> uid) (profiles d)\<rparr>"

section \<open>Registration (serializers.py, UserRegistrationSerializer)\<close>

text \<open>
  \<open>UserRegistrationSerializer.validate\<close>. Reading a missing key raises \<open>KeyError\<close>.
\<close>

definition registration_validate :: "string dict \<Rightarrow> error + string dict" where
  "registration_validate attrs =
     (case map_of attrs ''password'' of
        None \<Rightarrow> Inl (KeyError ''password'')
      | Some pw \<Rightarrow>
          (case map_of attrs ''password_confirm'' of
             None \<Rightarrow> Inl (KeyError ''password_confirm'')
           | Some pw_confirm \<Rightarrow>
               if pw \<noteq> pw_confirm
               then Inl (ValidationError ''Passwords don't match'')
               else Inr attrs))"

text \<open>
  \<open>UserRegistrationSerializer.validate_email\<close>;
  \<open>User.objects.filter(email=value).exists()\<close> is a search of the identity table.
\<close>

definition validate_email :: "db \<Rightarrow> string \<Rightarrow> error + string" where
  "validate_email d v =
     (if \<exists>u \<in> set (users d). email u = v
      then Inl (ValidationError ''A user with this email already exists.'')
      else Inr v)"

text \<open>\<open>UserRegistrationSerializer.create\<close>.\<close>

definition create :: "framework \<Rightarrow> nat \<Rightarrow> db \<Rightarrow> string dict \<Rightarrow> (error + user) \<times> db" where
  "create fw now d validated_data =
     (case pop ''password_confirm'' validated_data of
        None \<Rightarrow> (Inl (KeyError ''password_confirm''), d)
      | Some (_, kwargs) \<Rightarrow> create_user fw now d kwargs)"

text \<open>\<open>Meta.fields\<close> of the registration serializer.\<close>

definition registration_fields :: "string list" where
  "registration_fields =
     [''username'', ''email'', ''first_name'', ''last_name'', ''password'', ''password_confirm'']"

text \<open>
  The framework's character field, as every field of this serializer is (none is declared
  with \<open>trim_whitespace=False\<close>, so white space is removed at both ends of a value). The
  argument is the value under the field's key, if the key is present. A missing key is an
  error for a required field and the field is left out otherwise; a value that is blank
  after trimming is an error unless the field allows blank, and is accepted as the empty
  string, without running the rules, when it does; any other value is trimmed and must pass
  the rules. The result is the field's error messages and its parsed value, if it has one.
\<close>

definition char_field ::
  "bool \<Rightarrow> bool \<Rightarrow> (string \<Rightarrow> string list) \<Rightarrow> string option \<Rightarrow> string list \<times> string option" where
  "char_field required allow_blank rules raw =
     (case raw of
        None \<Rightarrow> (if required then [''This field is required.''] else [], None)
      | Some v \<Rightarrow>
          if strip v = []
          then (if allow_blank then ([], Some [])
                else ([''This field may not be blank.''], None))
          else (if rules (strip v) = [] then ([], Some (strip v))
                else (rules (strip v), None)))"

text \<open>
  The field \<open>username\<close>, generated from the identity model: required, not blank, with the
  generated format and length rules and, the column being unique, the rule that no stored
  identity has the username.
\<close>

definition username_field :: "framework \<Rightarrow> db \<Rightarrow> string option \<Rightarrow> string list \<times> string option" where
  "username_field fw d raw =
     char_field True False
       (\<lambda>v. username_rules fw v
            @ (if \<exists>u \<in> set (users d). username u = v
               then [''A user with that username already exists.'']
               else []))
       raw"

text \<open>
  The field \<open>email\<close>, generated from the identity model: optional, blank allowed, with the
  generated rules; then the serializer's \<open>validate_email\<close> runs on the parsed value.
\<close>

definition email_field :: "framework \<Rightarrow> db \<Rightarrow> string option \<Rightarrow> string list \<times> string option" where
  "email_field fw d raw =
     (case char_field False True (email_rules fw) raw of
        (errors, None) \<Rightarrow> (errors, None)
      | (errors, Some v) \<Rightarrow>
          (case validate_email d v of
             Inl (ValidationError m) \<Rightarrow> ([m], None)
           | Inl _ \<Rightarrow> (errors, None)
           | Inr v' \<Rightarrow> (errors, Some v')))"

text \<open>
  The fields \<open>password\<close>, declared with \<open>min_length=8\<close>, and \<open>password_confirm\<close>: both
  required and not blank. The length is that of the trimmed value.
\<close>

definition password_field :: "string option \<Rightarrow> string list \<times> string option" where
  "password_field raw =
     char_field True False
       (\<lambda>v. if length v < 8 then [''Ensure this field has at least 8 characters.''] else [])
       raw"

definition password_confirm_field :: "string option \<Rightarrow> string list \<times> string option" where
  "password_confirm_field raw = char_field True False (\<lambda>v. []) raw"

text \<open>
  Modelled from the spec: the field rules of the registration validator (section 4.2), run
  by the framework on the request data, field by field in the order of \<open>Meta.fields\<close>. Keys
  that are not declared fields are not read.
\<close>

definition registration_results ::
  "framework \<Rightarrow> db \<Rightarrow> string dict \<Rightarrow> (string \<times> string list \<times> string option) list" where
  "registration_results fw d data =
     [(''username'', username_field fw d (map_of data ''username'')),
      (''email'', email_field fw d (map_of data ''email'')),
      (''first_name'', char_field False True (name_rules fw) (map_of data ''first_name'')),
      (''last_name'', char_field False True (name_rules fw) (map_of data ''last_name'')),
      (''password'', password_field (map_of data ''password'')),
      (''password_confirm'', password_confirm_field (map_of data ''password_confirm''))]"

text \<open>The errors of all fields, keyed by field, and the parsed values of the fields.\<close>

definition field_errors ::
  "(string \<times> string list \<times> string option) list \<Rightarrow> (string \<times> string) list" where
  "field_errors results = concat (map (\<lambda>(name, errors, _). map (Pair name) errors) results)"

definition field_values :: "(string \<times> string list \<times> string option) list \<Rightarrow> string dict" where
  "field_values results =
     concat (map (\<lambda>(name, _, v). case v of None \<Rightarrow> [] | Some x \<Rightarrow> [(name, x)]) results)"

definition field_validation :: "framework \<Rightarrow> db \<Rightarrow> string dict \<Rightarrow> (string \<times> string) list" where
  "field_validation fw d data = field_errors (registration_results fw d data)"

text \<open>
  Modelled from the spec: the run of the registration validator (section 4.2; errors keyed
  by field, section 6). The framework runs the field rules first and reports their errors;
  it calls \<open>validate\<close> on the parsed values only when no field rule failed, and reports its
  \<open>ValidationError\<close> under \<open>non_field_errors\<close>.
\<close>

definition run_validation :: "framework \<Rightarrow> db \<Rightarrow> string dict \<Rightarrow> error + string dict" where
  "run_validation fw d data =
     (let results = registration_results fw d data
      in if field_errors results \<noteq> [] then Inl (FieldErrors (field_errors results))
         else (case registration_validate (field_values results) of
                 Inl (ValidationError m) \<Rightarrow> Inl (FieldErrors [(''non_field_errors'', m)])
               | Inl e \<Rightarrow> Inl e
               | Inr attrs \<Rightarrow> Inr attrs))"

text \<open>
  Modelled from the spec: the handler of \<open>POST auth/register/\<close> (views.py is not among the
  source files; section 4.6): the validator runs, and only valid data reach \<open>create\<close>; on an
  error the store is as it was.
\<close>

definition register :: "framework \<Rightarrow> nat \<Rightarrow> db \<Rightarrow> string dict \<Rightarrow> (error + user) \<times> db" where
  "register fw now d data =
     (case run_validation fw d data of
        Inl e \<Rightarrow> (Inl e, d)
      | Inr validated_data \<Rightarrow> create fw now d validated_data)"

section \<open>Login (serializers.py, UserLoginSerializer)\<close>

text \<open>
  \<open>UserLoginSerializer.validate\<close>. \<open>authenticate\<close> is the framework's and a parameter: it
  yields the identity that the credentials resolve to, or \<open>None\<close>. \<open>attrs.get\<close> yields
  \<open>None\<close> for a missing key, and \<open>None\<close> and the empty string are false. The result is
  \<open>attrs\<close> together with the value stored under the key \<open>user\<close>.
\<close>

definition login_validate ::
  "(string \<Rightarrow> string \<Rightarrow> user option) \<Rightarrow> string dict \<Rightarrow> error + (string dict \<times> user)" where
  "login_validate authenticate attrs =
     (case (map_of attrs ''username'', map_of attrs ''password'') of
        (Some uname, Some pw) \<Rightarrow>
          if uname \<noteq> [] \<and> pw \<noteq> []
          then (case authenticate uname pw of
                  None \<Rightarrow> Inl (ValidationError ''Invalid credentials'')
                | Some user \<Rightarrow>
                    if \<not> is_active user
                    then Inl (ValidationError ''User account is disabled'')
                    else Inr (attrs, user))
          else Inl (ValidationError ''Must include username and password'')
      | _ \<Rightarrow> Inl (ValidationError ''Must include username and password''))"

text \<open>
  The framework's \<open>authenticate\<close> with its default model backend, which is not in the source
  files: the stored identity with the given username, when the password checks against its
  credential and the backend lets the identity authenticate, which it does for active
  identities only; \<open>None\<close> otherwise.
\<close>

definition authenticate :: "framework \<Rightarrow> db \<Rightarrow> string \<Rightarrow> string \<Rightarrow> user option" where
  "authenticate fw d uname pw =
     (case find (\<lambda>u. username u = uname) (users d) of
        None \<Rightarrow> None
      | Some u \<Rightarrow>
          if check_password fw pw (password u) \<and> is_active u then Some u else None)"

section \<open>Profile update (serializers.py, UserProfileUpdateSerializer)\<close>

text \<open>
  An item of a dictionary of the update serializer is a declared field with a value of the
  field's type: the key is the constructor. \<open>first_name\<close> and \<open>last_name\<close> are declared with
  \<open>source='user.first_name'\<close> and \<open>source='user.last_name'\<close>; the other ten fields are
  columns of the profile.
\<close>

datatype user_attr = First_name string | Last_name string

datatype profile_attr =
    Phone_number "string option"
  | Date_of_birth "date option"
  | Location "string option"
  | Bio "string option"
  | Skills "string option"
  | Experience_years int
  | Linkedin_url "string option"
  | Github_url "string option"
  | Is_recruiter bool
  | Company "string option"

datatype request_item = Identity_field user_attr | Profile_field profile_attr

fun user_attr_key :: "user_attr \<Rightarrow> string" where
  "user_attr_key (First_name _) = ''first_name''"
| "user_attr_key (Last_name _) = ''last_name''"

fun profile_attr_key :: "profile_attr \<Rightarrow> string" where
  "profile_attr_key (Phone_number _) = ''phone_number''"
| "profile_attr_key (Date_of_birth _) = ''date_of_birth''"
| "profile_attr_key (Location _) = ''location''"
| "profile_attr_key (Bio _) = ''bio''"
| "profile_attr_key (Skills _) = ''skills''"
| "profile_attr_key (Experience_years _) = ''experience_years''"
| "profile_attr_key (Linkedin_url _) = ''linkedin_url''"
| "profile_attr_key (Github_url _) = ''github_url''"
| "profile_attr_key (Is_recruiter _) = ''is_recruiter''"
| "profile_attr_key (Company _) = ''company''"

fun request_key :: "request_item \<Rightarrow> string" where
  "request_key (Identity_field a) = user_attr_key a"
| "request_key (Profile_field a) = profile_attr_key a"

text \<open>\<open>setattr(instance.user, attr, value)\<close> and \<open>setattr(instance, attr, value)\<close>.\<close>

fun setattr_user :: "user_attr \<Rightarrow> user \<Rightarrow> user" where
  "setattr_user (First_name v) u = u\<lparr>first_name := v\<rparr>"
| "setattr_user (Last_name v) u = u\<lparr>last_name := v\<rparr>"

fun setattr_userprofile :: "profile_attr \<Rightarrow> userprofile \<Rightarrow> userprofile" where
  "setattr_userprofile (Phone_number v) p = p\<lparr>phone_number := v\<rparr>"
| "setattr_userprofile (Date_of_birth v) p = p\<lparr>date_of_birth := v\<rparr>"
| "setattr_userprofile (Location v) p = p\<lparr>location := v\<rparr>"
| "setattr_userprofile (Bio v) p = p\<lparr>bio := v\<rparr>"
| "setattr_userprofile (Skills v) p = p\<lparr>skills := v\<rparr>"
| "setattr_userprofile (Experience_years v) p = p\<lparr>experience_years := v\<rparr>"
| "setattr_userprofile (Linkedin_url v) p = p\<lparr>linkedin_url := v\<rparr>"
| "setattr_userprofile (Github_url v) p = p\<lparr>github_url := v\<rparr>"
| "setattr_userprofile (Is_recruiter v) p = p\<lparr>is_recruiter := v\<rparr>"
| "setattr_userprofile (Company v) p = p\<lparr>company := v\<rparr>"

text \<open>The value of the attribute that an item names, as an item: \<open>getattr\<close>.\<close>

fun getattr_user :: "user \<Rightarrow> user_attr \<Rightarrow> user_attr" where
  "getattr_user u (First_name _) = First_name (first_name u)"
| "getattr_user u (Last_name _) = Last_name (last_name u)"

fun getattr_userprofile :: "userprofile \<Rightarrow> profile_attr \<Rightarrow> profile_attr" where
  "getattr_userprofile p (Phone_number _) = Phone_number (phone_number p)"
| "getattr_userprofile p (Date_of_birth _) = Date_of_birth (date_of_birth p)"
| "getattr_userprofile p (Location _) = Location (location p)"
| "getattr_userprofile p (Bio _) = Bio (bio p)"
| "getattr_userprofile p (Skills _) = Skills (skills p)"
| "getattr_userprofile p (Experience_years _) = Experience_years (experience_years p)"
| "getattr_userprofile p (Linkedin_url _) = Linkedin_url (linkedin_url p)"
| "getattr_userprofile p (Github_url _) = Github_url (github_url p)"
| "getattr_userprofile p (Is_recruiter _) = Is_recruiter (is_recruiter p)"
| "getattr_userprofile p (Company _) = Company (company p)"

text \<open>
  \<open>validated_data\<close> of the update serializer: the nested dictionary under the key \<open>user\<close>,
  when the key is present, and the other items.
\<close>

record validated_data =
  vd_user :: "user_attr list option"
  vd_items :: "profile_attr list"

text \<open>
  The validated data of a request body, by the \<open>source\<close> declarations: the items of
  \<open>first_name\<close> and \<open>last_name\<close> go to the dictionary under \<open>user\<close>, which exists when there is
  such an item.
\<close>

fun identity_items :: "request_item list \<Rightarrow> user_attr list" where
  "identity_items [] = []"
| "identity_items (Identity_field a # data) = a # identity_items data"
| "identity_items (Profile_field _ # data) = identity_items data"

fun profile_items :: "request_item list \<Rightarrow> profile_attr list" where
  "profile_items [] = []"
| "profile_items (Identity_field _ # data) = profile_items data"
| "profile_items (Profile_field a # data) = a # profile_items data"

definition to_internal_value :: "request_item list \<Rightarrow> validated_data" where
  "to_internal_value data =
     \<lparr>vd_user = (if identity_items data = [] then None else Some (identity_items data)),
      vd_items = profile_items data\<rparr>"

text \<open>
  \<open>UserProfileUpdateSerializer.update\<close>. \<open>instance.user\<close> is read from the store by the
  profile's \<open>user_id\<close>, and the identity object read has \<open>instance\<close> as its cached profile,
  so the receiver \<open>save_user_profile\<close> saves \<open>instance\<close> itself. Each loop is a fold over the
  items in order.
\<close>

definition update ::
  "nat \<Rightarrow> db \<Rightarrow> userprofile \<Rightarrow> validated_data \<Rightarrow> (error + userprofile) \<times> db" where
  "update now d instance validated_data =
     (let user_data = (case vd_user validated_data of None \<Rightarrow> [] | Some x \<Rightarrow> x)
      in
        case (if user_data \<noteq> []
              then (case find (\<lambda>u. user_pk u = user_id instance) (users d) of
                      None \<Rightarrow> (Inl DoesNotExist, d)
                    | Some instance_user \<Rightarrow>
                        user_save now d (fold setattr_user user_data instance_user)
                          (Some instance))
              else (Inr instance, d)) of
          (Inl e, d1) \<Rightarrow> (Inl e, d1)
        | (Inr instance1, d1) \<Rightarrow>
            userprofile_save now d1 (fold setattr_userprofile (vd_items validated_data) instance1))"

text \<open>
  Modelled from the spec: \<open>getOrCreate(identityId)\<close> of the profile store (section 4.1).
\<close>

definition get_or_create :: "nat \<Rightarrow> db \<Rightarrow> user \<Rightarrow> (error + userprofile) \<times> db" where
  "get_or_create now d u =
     (case find (\<lambda>p. user_id p = user_pk u) (profiles d) of
        Some p \<Rightarrow> (Inr p, d)
      | None \<Rightarrow> userprofile_create now d u)"

text \<open>
  Modelled from the spec: the handler of \<open>PUT profile/\<close> (views.py is not among the source
  files; sections 4.5 and 4.6): the request is authenticated as the identity \<open>uid\<close>, whose
  profile is taken from the store and updated with the validated data of the request.
\<close>

definition put_profile ::
  "nat \<Rightarrow> db \<Rightarrow> nat \<Rightarrow> request_item list \<Rightarrow> (error + userprofile) \<times> db" where
  "put_profile now d uid data =
     (case find (\<lambda>u. user_pk u = uid) (users d) of
        None \<Rightarrow> (Inl NotAuthenticated, d)
      | Some request_user \<Rightarrow>
          (case get_or_create now d request_user of
             (Inl e, d1) \<Rightarrow> (Inl e, d1)
           | (Inr instance, d1) \<Rightarrow> update now d1 instance (to_internal_value data)))"

section \<open>Reachable stores\<close>

text \<open>
  The stores that the operations produce from the empty one, whether an operation succeeds
  or fails.
\<close>

definition empty_db :: db where
  "empty_db = \<lparr>users = [], profiles = [], next_user_pk = 1, next_profile_pk = 1\<rparr>"

inductive reachable :: "framework \<Rightarrow> db \<Rightarrow> bool" for fw :: framework where
  reachable_empty: "reachable fw empty_db"
| reachable_register:
    "reachable fw d \<Longrightarrow> register fw now d data = (r, d') \<Longrightarrow> reachable fw d'"
| reachable_put_profile:
    "reachable fw d \<Longrightarrow> put_profile now d uid items = (r', d') \<Longrightarrow> reachable fw d'"
| reachable_delete:
    "reachable fw d \<Longrightarrow> reachable fw (delete_user d uid)"

text \<open>The integrity of a store: keys, unique columns and the one-to-one relation.\<close>

definition consistent :: "db \<Rightarrow> bool" where
  "consistent d \<longleftrightarrow>
     distinct (map user_pk (users d)) \<and>
     distinct (map username (users d)) \<and>
     distinct (map profile_pk (profiles d)) \<and>
     distinct (map user_id (profiles d)) \<and>
     set (map user_id (profiles d)) = set (map user_pk (users d)) \<and>
     (\<forall>u \<in> set (users d). user_pk u < next_user_pk d) \<and>
     (\<forall>p \<in> set (profiles d). profile_pk p < next_profile_pk d)"

section \<open>The derived list in the words of the specification\<close>

text \<open>
  Section 3 of the specification: the skills string split on commas, each entry trimmed,
  empty entries dropped. It is compared with \<open>skills_list\<close> below.
\<close>

definition skills_list_spec :: "string \<Rightarrow> string list" where
  "skills_list_spec s = filter (\<lambda>entry. entry \<noteq> []) (map strip (split CHR '','' s))"

section \<open>Example data\<close>

text \<open>
  A framework instance. Its username rules are the framework's on strings of ASCII letters,
  digits, the signs \<open>_.@+-\<close> and the ordinal indicators (code points 0xAA and 0xBA, which are
  letters); its normalisation of usernames is the framework's (compatibility normal form)
  on such strings: it replaces the ordinal indicators by \<open>a\<close> and \<open>o\<close>. Its email rules ask
  for one \<open>@\<close> with a name before it and a dot after it, and its normalisation of emails
  leaves a trimmed address with a lower-case domain as it is.
\<close>

definition example_username_rules :: "string \<Rightarrow> string list" where
  "example_username_rules v =
     (if \<forall>c \<in> set v.
           c \<in> set ''abcdefghijklmnopqrstuvwxyzABCDEFGHIJKLMNOPQRSTUVWXYZ0123456789_.@+-''
           \<or> c = CHR 0xAA \<or> c = CHR 0xBA
      then []
      else [''Enter a valid username. This value may contain only letters, numbers, and @/./+/-/_ characters.''])
     @ (if 150 < length v then [''Ensure this field has no more than 150 characters.''] else [])"

definition example_email_rules :: "string \<Rightarrow> string list" where
  "example_email_rules v =
     (if (case split CHR ''@'' v of
            [name, domain] \<Rightarrow> name \<noteq> [] \<and> CHR ''.'' \<in> set domain
          | _ \<Rightarrow> False)
      then []
      else [''Enter a valid email address.''])
     @ (if 254 < length v then [''Ensure this field has no more than 254 characters.''] else [])"

definition example_framework :: framework where
  "example_framework =
     \<lparr>make_password = (\<lambda>pw. case pw of None \<Rightarrow> ''!'' | Some s \<Rightarrow> ''hashed:'' @ s),
      check_password = (\<lambda>pw encoded. encoded = ''hashed:'' @ pw),
      normalize_email = (\<lambda>e. e),
      normalize_username =
        map (\<lambda>c. if c = CHR 0xAA then CHR ''a'' else if c = CHR 0xBA then CHR ''o'' else c),
      username_rules = example_username_rules,
      email_rules = example_email_rules,
      name_rules =
        (\<lambda>v. if 150 < length v then [''Ensure this field has no more than 150 characters.'']
             else [])\<rparr>"

text \<open>A registration, and the store after that registration at time 10.\<close>

definition example_registration :: "string dict" where
  "example_registration =
     [(''username'', ''jane''), (''email'', ''jane@example.org''),
      (''first_name'', '' Jane ''), (''last_name'', ''Doe''),
      (''password'', ''correct-horse''), (''password_confirm'', ''correct-horse'')]"

definition example_user :: user where
  "example_user =
     \<lparr>user_pk = 1, username = ''jane'', email = ''jane@example.org'',
      first_name = ''Jane'', last_name = ''Doe'', password = ''hashed:correct-horse'',
      is_active = True\<rparr>"

definition example_profile :: userprofile where
  "example_profile = (new_userprofile 1 1 10)\<lparr>company := Some ''A''\<rparr>"

definition example_db :: db where
  "example_db =
     \<lparr>users = [example_user], profiles = [new_userprofile 1 1 10],
      next_user_pk = 2, next_profile_pk = 2\<rparr>"

text \<open>The same store after the profile's company was set to \<open>A\<close>.\<close>

definition example_db_company :: db where
  "example_db_company = example_db\<lparr>profiles := [example_profile]\<rparr>"

text \<open>The same store after the identity was disabled, and a login with its credentials.\<close>

definition example_db_disabled :: db where
  "example_db_disabled = example_db\<lparr>users := [example_user\<lparr>is_active := False\<rparr>]\<rparr>"

definition example_login :: "string dict" where
  "example_login = [(''username'', ''jane''), (''password'', ''correct-horse'')]"

text \<open>
  Registrations in the store \<open>example_db\<close>: one whose password has a trailing space that
  its confirmation lacks; one whose passwords differ and are short; and one whose username
  differs from the stored \<open>jane\<close> by an ordinal indicator in place of the \<open>a\<close>.
\<close>

definition example_trailing_space :: "string dict" where
  "example_trailing_space =
     [(''username'', ''joe''), (''email'', ''joe@example.org''),
      (''password'', ''pass1234 ''), (''password_confirm'', ''pass1234'')]"

definition example_joe :: user where
  "example_joe =
     \<lparr>user_pk = 2, username = ''joe'', email = ''joe@example.org'',
      first_name = [], last_name = [], password = ''hashed:pass1234'',
      is_active = True\<rparr>"

definition example_short_mismatch :: "string dict" where
  "example_short_mismatch =
     [(''username'', ''joe''), (''email'', ''joe@example.org''),
      (''password'', ''short''), (''password_confirm'', ''other'')]"

definition example_colliding_username :: "string dict" where
  "example_colliding_username =
     [(''username'', [CHR ''j'', CHR 0xAA, CHR ''n'', CHR ''e'']),
      (''email'', ''other@example.org''),
      (''password'', ''another-pass''), (''password_confirm'', ''another-pass'')]"

section \<open>Strings: facts\<close>

lemma rstrip_decomposition: "s = rstrip s @ rev (takeWhile isspace (rev s))"
  unfolding rstrip_def
  by (metis rev_append rev_rev_ident takeWhile_dropWhile_id)

lemma strip_decomposition:
  "s = takeWhile isspace s @ strip s @ rev (takeWhile isspace (rev (lstrip s)))"
proof -
  have "lstrip s = strip s @ rev (takeWhile isspace (rev (lstrip s)))"
    unfolding strip_def by (rule rstrip_decomposition)
  moreover have "s = takeWhile isspace s @ lstrip s"
    by (simp add: lstrip_def)
  ultimately show ?thesis by simp
qed

lemma rstrip_last: "rstrip s \<noteq> [] \<Longrightarrow> \<not> isspace (last (rstrip s))"
  unfolding rstrip_def using hd_dropWhile [of isspace "rev s"]
  by (simp add: last_rev)

lemma rstrip_hd: "rstrip s \<noteq> [] \<Longrightarrow> hd (rstrip s) = hd s"
proof -
  assume ne: "rstrip s \<noteq> []"
  have "hd s = hd (rstrip s @ rev (takeWhile isspace (rev s)))"
    using rstrip_decomposition [of s] by simp
  with ne show ?thesis by simp
qed

lemma strip_hd: "strip s \<noteq> [] \<Longrightarrow> \<not> isspace (hd (strip s))"
proof -
  assume ne: "strip s \<noteq> []"
  then have "lstrip s \<noteq> []" by (auto simp: strip_def rstrip_def)
  then have "\<not> isspace (hd (lstrip s))"
    unfolding lstrip_def by (rule hd_dropWhile)
  with ne show ?thesis by (simp add: strip_def rstrip_hd)
qed

lemma strip_last: "strip s \<noteq> [] \<Longrightarrow> \<not> isspace (last (strip s))"
  unfolding strip_def by (rule rstrip_last)

lemma strip_id: "s \<noteq> [] \<Longrightarrow> \<not> isspace (hd s) \<Longrightarrow> \<not> isspace (last s) \<Longrightarrow> strip s = s"
proof -
  assume ne: "s \<noteq> []" and h: "\<not> isspace (hd s)" and l: "\<not> isspace (last s)"
  from ne h have "lstrip s = s" by (cases s) (simp_all add: lstrip_def)
  moreover from ne l have "dropWhile isspace (rev s) = rev s"
    by (cases s rule: rev_cases) simp_all
  ultimately show ?thesis by (simp add: strip_def rstrip_def)
qed

lemma strip_Nil: "strip [] = []"
  by (simp add: strip_def rstrip_def lstrip_def)

lemma strip_idem: "strip (strip s) = strip s"
proof (cases "strip s = []")
  case True
  then have "strip (strip s) = strip []" by simp
  with True show ?thesis by (simp only: strip_Nil)
next
  case False
  then show ?thesis by (simp add: strip_id strip_hd strip_last)
qed

lemma set_strip: "set (strip s) \<subseteq> set s"
proof -
  have "set (strip s) \<subseteq> set (lstrip s)"
    unfolding strip_def rstrip_def using set_dropWhileD [of _ isspace "rev (lstrip s)"] by auto
  moreover have "set (lstrip s) \<subseteq> set s"
    unfolding lstrip_def using set_dropWhileD [of _ isspace s] by auto
  ultimately show ?thesis by blast
qed

lemma split_nonempty: "split sep s \<noteq> []"
  by (induction s) (auto split: list.splits)

lemma split_no_sep: "w \<in> set (split sep s) \<Longrightarrow> sep \<notin> set w"
  by (induction s arbitrary: w) (auto split: list.splits if_splits)


lemma skills_list_refines:
  "skills self = Some s \<Longrightarrow> skills_list self = skills_list_spec s"
  by (simp add: skills_list_def skills_list_spec_def filter_map comp_def strip_Nil)

lemma full_name_unchanged:
  assumes "first_name u \<noteq> []" "strip (first_name u) = first_name u"
    and "last_name u \<noteq> []" "strip (last_name u) = last_name u"
  shows "full_name u = first_name u @ '' '' @ last_name u"
proof -
  have "\<not> isspace (hd (first_name u))" using assms(1,2) strip_hd [of "first_name u"] by simp
  moreover have "\<not> isspace (last (last_name u))" using assms(3,4) strip_last [of "last_name u"] by simp
  ultimately show ?thesis
    unfolding full_name_def using assms(1,3) by (intro strip_id) simp_all
qed

section \<open>The store: facts\<close>

lemma key_unique:
  "distinct (map key rows) \<Longrightarrow> q \<in> set rows \<Longrightarrow> r \<in> set rows \<Longrightarrow> key r = key q \<Longrightarrow> r = q"
  by (meson distinct_map inj_onD)

lemma map_update_row:
  "(\<And>r. r \<in> set rows \<Longrightarrow> key r = key self \<Longrightarrow> f r = f self)
   \<Longrightarrow> map f (update_row key self rows) = map f rows"
  by (induction rows) (auto simp: update_row_def)

lemma map_key_update_row: "map key (update_row key self rows) = map key rows"
  by (rule map_update_row) simp

lemma update_row_twice:
  "key s1 = key s2 \<Longrightarrow> update_row key s2 (update_row key s1 rows) = update_row key s2 rows"
  by (induction rows) (auto simp: update_row_def)

lemma update_row_absent:
  "\<forall>r \<in> set rows. key r \<noteq> key self \<Longrightarrow> update_row key self rows = rows"
  by (induction rows) (auto simp: update_row_def)

lemma update_row_append:
  "update_row key self (xs @ ys) = update_row key self xs @ update_row key self ys"
  by (simp add: update_row_def)

lemma find_update_row:
  assumes "\<And>r. r \<in> set rows \<Longrightarrow> key r = key self \<Longrightarrow> g r = g self"
  shows "find (\<lambda>r. g r = x) (update_row key self rows)
         = map_option (\<lambda>r. if key r = key self then self else r) (find (\<lambda>r. g r = x) rows)"
  using assms by (induction rows) (auto simp: update_row_def)

lemma set_update_row:
  "r \<in> set (update_row key self rows) \<Longrightarrow> r = self \<or> (r \<in> set rows \<and> key r \<noteq> key self)"
  by (auto simp: update_row_def split: if_splits)

lemma ball_key_update_row:
  "\<forall>r \<in> set rows. P (key r) \<Longrightarrow> q \<in> set rows \<Longrightarrow> key self = key q
   \<Longrightarrow> \<forall>r \<in> set (update_row key self rows). P (key r)"
  by (auto simp: update_row_def)

lemma find_Some_set: "find P xs = Some x \<Longrightarrow> x \<in> set xs \<and> P x"
  by (induction xs) (auto split: if_splits)

lemma find_key_Some:
  "distinct (map key rows) \<Longrightarrow> q \<in> set rows \<Longrightarrow> find (\<lambda>r. key r = key q) rows = Some q"
  by (induction rows) (auto simp: rev_image_eqI)

lemma fold_setattr_user_frame:
  "user_pk (fold setattr_user as u) = user_pk u \<and>
   username (fold setattr_user as u) = username u \<and>
   email (fold setattr_user as u) = email u \<and>
   password (fold setattr_user as u) = password u \<and>
   is_active (fold setattr_user as u) = is_active u"
proof (induction as arbitrary: u)
  case Nil
  show ?case by simp
next
  case (Cons a as)
  show ?case by (cases a) (simp_all add: Cons.IH)
qed

lemma fold_setattr_userprofile_frame:
  "profile_pk (fold setattr_userprofile as p) = profile_pk p \<and>
   user_id (fold setattr_userprofile as p) = user_id p \<and>
   resume (fold setattr_userprofile as p) = resume p \<and>
   profile_picture (fold setattr_userprofile as p) = profile_picture p \<and>
   created_at (fold setattr_userprofile as p) = created_at p \<and>
   updated_at (fold setattr_userprofile as p) = updated_at p"
proof (induction as arbitrary: p)
  case Nil
  show ?case by simp
next
  case (Cons a as)
  show ?case by (cases a) (simp_all add: Cons.IH)
qed

lemma userprofile_save_row:
  assumes "distinct (map user_id (profiles d))"
    and "q \<in> set (profiles d)" and "profile_pk self = profile_pk q" and "user_id self = user_id q"
    and "distinct (map profile_pk (profiles d))"
  shows "userprofile_save now d self =
           (Inr (self\<lparr>updated_at := now\<rparr>),
            d\<lparr>profiles := update_row profile_pk (self\<lparr>updated_at := now\<rparr>) (profiles d)\<rparr>)"
proof -
  have a: "\<exists>p \<in> set (profiles d). profile_pk p = profile_pk self"
    using assms(2,3) by auto
  have b: "\<not> (\<exists>p \<in> set (profiles d). profile_pk p \<noteq> profile_pk self \<and> user_id p = user_id self)"
    using assms key_unique [of user_id "profiles d" q] by auto
  show ?thesis
    unfolding userprofile_save_def using a b by (simp add: Let_def)
qed

lemma consistent_update_profile:
  assumes "consistent d" and "q \<in> set (profiles d)"
    and "profile_pk self = profile_pk q" and "user_id self = user_id q"
  shows "consistent (d\<lparr>profiles := update_row profile_pk self (profiles d)\<rparr>)"
proof -
  have pk: "map profile_pk (update_row profile_pk self (profiles d)) = map profile_pk (profiles d)"
    by (rule map_key_update_row)
  have "\<And>r. r \<in> set (profiles d) \<Longrightarrow> profile_pk r = profile_pk self \<Longrightarrow> user_id r = user_id self"
    using assms key_unique [of profile_pk "profiles d" q] by (auto simp: consistent_def)
  then have uid: "map user_id (update_row profile_pk self (profiles d)) = map user_id (profiles d)"
    by (rule map_update_row)
  have lt: "\<forall>p \<in> set (update_row profile_pk self (profiles d)). profile_pk p < next_profile_pk d"
    using assms ball_key_update_row [of "profiles d" "\<lambda>k. k < next_profile_pk d" profile_pk q self]
    by (simp add: consistent_def)
  show ?thesis
    using assms(1) lt unfolding consistent_def
    by (simp add: pk uid del: set_map)
qed

lemma consistent_update_user:
  assumes "consistent d" and "q \<in> set (users d)"
    and "user_pk self = user_pk q" and "username self = username q"
  shows "consistent (d\<lparr>users := update_row user_pk self (users d)\<rparr>)"
proof -
  have pk: "map user_pk (update_row user_pk self (users d)) = map user_pk (users d)"
    by (rule map_key_update_row)
  have "\<And>r. r \<in> set (users d) \<Longrightarrow> user_pk r = user_pk self \<Longrightarrow> username r = username self"
    using assms key_unique [of user_pk "users d" q] by (auto simp: consistent_def)
  then have un: "map username (update_row user_pk self (users d)) = map username (users d)"
    by (rule map_update_row)
  have lt: "\<forall>u \<in> set (update_row user_pk self (users d)). user_pk u < next_user_pk d"
    using assms ball_key_update_row [of "users d" "\<lambda>k. k < next_user_pk d" user_pk q self]
    by (simp add: consistent_def)
  show ?thesis
    using assms(1) lt unfolding consistent_def
    by (simp add: pk un del: set_map)
qed

lemma fold_setattr_userprofile_updated_at:
  "fold setattr_userprofile as (p\<lparr>updated_at := t\<rparr>) = (fold setattr_userprofile as p)\<lparr>updated_at := t\<rparr>"
proof (induction as arbitrary: p)
  case Nil
  show ?case by simp
next
  case (Cons a as)
  have "setattr_userprofile a (p\<lparr>updated_at := t\<rparr>) = (setattr_userprofile a p)\<lparr>updated_at := t\<rparr>"
    by (cases a) simp_all
  then show ?case by (simp add: Cons.IH)
qed

lemma consistent_user_of_profile:
  assumes "consistent d" and "p \<in> set (profiles d)"
  obtains u where "u \<in> set (users d)" and "user_pk u = user_id p"
    and "find (\<lambda>u. user_pk u = user_id p) (users d) = Some u"
proof -
  have "user_id p \<in> set (map user_pk (users d))"
    using assms by (auto simp: consistent_def)
  then obtain u where u: "u \<in> set (users d)" "user_pk u = user_id p" by auto
  moreover have "find (\<lambda>r. user_pk r = user_pk u) (users d) = Some u"
    using assms(1) u(1) by (intro find_key_Some) (simp_all add: consistent_def)
  ultimately show ?thesis using that by simp
qed

lemma consistent_profile_of_user:
  assumes "consistent d" and "u \<in> set (users d)"
  obtains p where "p \<in> set (profiles d)" and "user_id p = user_pk u"
    and "find (\<lambda>p. user_id p = user_pk u) (profiles d) = Some p"
proof -
  have "user_pk u \<in> set (map user_id (profiles d))"
    using assms by (auto simp: consistent_def)
  then obtain p where p: "p \<in> set (profiles d)" "user_id p = user_pk u" by auto
  moreover have "find (\<lambda>r. user_id r = user_id p) (profiles d) = Some p"
    using assms(1) p(1) by (intro find_key_Some) (simp_all add: consistent_def)
  ultimately show ?thesis using that by simp
qed

lemma user_save_row:
  assumes "consistent d" and "q \<in> set (users d)"
    and "user_pk self = user_pk q" and "username self = username q"
    and "p \<in> set (profiles d)"
    and "profile_pk inst = profile_pk p" and "user_id inst = user_id p"
  shows "user_save now d self (Some inst) =
           (Inr (inst\<lparr>updated_at := now\<rparr>),
            d\<lparr>users := update_row user_pk self (users d),
              profiles := update_row profile_pk (inst\<lparr>updated_at := now\<rparr>) (profiles d)\<rparr>)"
proof -
  let ?d1 = "d\<lparr>users := update_row user_pk self (users d)\<rparr>"
  have a: "\<exists>u \<in> set (users d). user_pk u = user_pk self"
    using assms(2,3) by auto
  have b: "\<not> (\<exists>u \<in> set (users d). user_pk u \<noteq> user_pk self \<and> username u = username self)"
    using assms(1-4) key_unique [of username "users d" q] by (auto simp: consistent_def)
  have "userprofile_save now ?d1 inst =
          (Inr (inst\<lparr>updated_at := now\<rparr>),
           ?d1\<lparr>profiles := update_row profile_pk (inst\<lparr>updated_at := now\<rparr>) (profiles ?d1)\<rparr>)"
    using assms by (intro userprofile_save_row [where q = p]) (simp_all add: consistent_def)
  then have "post_save now ?d1 self (Some inst) False =
          (Inr (inst\<lparr>updated_at := now\<rparr>),
           ?d1\<lparr>profiles := update_row profile_pk (inst\<lparr>updated_at := now\<rparr>) (profiles d)\<rparr>)"
    by (simp add: post_save_def create_user_profile_def save_user_profile_def)
  then show ?thesis
    unfolding user_save_def using a b by simp
qed

lemma update_result:
  assumes "consistent d" and "instance \<in> set (profiles d)"
    and "find (\<lambda>u. user_pk u = user_id instance) (users d) = Some instance_user"
  shows "update now d instance vd =
           (Inr ((fold setattr_userprofile (vd_items vd) instance)\<lparr>updated_at := now\<rparr>),
            d\<lparr>users :=
                 (case vd_user vd of
                    None \<Rightarrow> users d
                  | Some user_data \<Rightarrow>
                      if user_data = [] then users d
                      else update_row user_pk (fold setattr_user user_data instance_user) (users d)),
              profiles :=
                 update_row profile_pk
                   ((fold setattr_userprofile (vd_items vd) instance)\<lparr>updated_at := now\<rparr>)
                   (profiles d)\<rparr>)"
proof -
  let ?new = "(fold setattr_userprofile (vd_items vd) instance)\<lparr>updated_at := now\<rparr>"
  let ?user_data = "case vd_user vd of None \<Rightarrow> [] | Some x \<Rightarrow> x"
  have frame: "profile_pk (fold setattr_userprofile (vd_items vd) instance) = profile_pk instance"
    "user_id (fold setattr_userprofile (vd_items vd) instance) = user_id instance"
    by (simp_all add: fold_setattr_userprofile_frame)
  show ?thesis
  proof (cases "?user_data = []")
    case True
    have "userprofile_save now d (fold setattr_userprofile (vd_items vd) instance) =
            (Inr ?new, d\<lparr>profiles := update_row profile_pk ?new (profiles d)\<rparr>)"
      using assms(1,2) frame
      by (intro userprofile_save_row [where q = "instance"]) (simp_all add: consistent_def)
    with True show ?thesis
      by (simp add: update_def split: option.splits)
  next
    case False
    let ?u = "fold setattr_user ?user_data instance_user"
    let ?saved = "instance\<lparr>updated_at := now\<rparr>"
    let ?d1 = "d\<lparr>users := update_row user_pk ?u (users d),
                 profiles := update_row profile_pk ?saved (profiles d)\<rparr>"
    have iu: "instance_user \<in> set (users d)"
      using assms(3) find_Some_set by fastforce
    have first: "user_save now d ?u (Some instance) = (Inr ?saved, ?d1)"
      using assms(1,2) iu
      by (intro user_save_row [where q = instance_user and p = "instance"])
         (simp_all add: fold_setattr_user_frame)
    have saved_in: "?saved \<in> set (profiles ?d1)"
      using assms(2) by (auto simp: update_row_def)
    have d1_pk: "map profile_pk (profiles ?d1) = map profile_pk (profiles d)"
      by (simp add: map_key_update_row)
    have "\<And>r. r \<in> set (profiles d) \<Longrightarrow> profile_pk r = profile_pk ?saved \<Longrightarrow> user_id r = user_id ?saved"
      using assms(1,2) key_unique [of profile_pk "profiles d" "instance"]
      by (auto simp: consistent_def)
    then have d1_uid: "map user_id (profiles ?d1) = map user_id (profiles d)"
      using map_update_row [of "profiles d" profile_pk ?saved user_id] by simp
    have "userprofile_save now ?d1 (fold setattr_userprofile (vd_items vd) ?saved) =
            (Inr ((fold setattr_userprofile (vd_items vd) ?saved)\<lparr>updated_at := now\<rparr>),
             ?d1\<lparr>profiles := update_row profile_pk
                    ((fold setattr_userprofile (vd_items vd) ?saved)\<lparr>updated_at := now\<rparr>)
                    (profiles ?d1)\<rparr>)"
      using assms(1) saved_in d1_pk d1_uid
      by (intro userprofile_save_row [where q = ?saved])
         (simp_all add: consistent_def fold_setattr_userprofile_frame del: db.simps)
    then have second: "userprofile_save now ?d1 (fold setattr_userprofile (vd_items vd) ?saved) =
            (Inr ?new, ?d1\<lparr>profiles := update_row profile_pk ?new (profiles d)\<rparr>)"
      by (simp add: fold_setattr_userprofile_updated_at update_row_twice fold_setattr_userprofile_frame)
    from False first second assms(3) show ?thesis
      by (simp add: update_def split: option.splits)
  qed
qed

lemma consistent_update:
  assumes "consistent d" and "instance \<in> set (profiles d)"
    and "find (\<lambda>u. user_pk u = user_id instance) (users d) = Some instance_user"
  shows "consistent (snd (update now d instance vd))"
proof -
  let ?new = "(fold setattr_userprofile (vd_items vd) instance)\<lparr>updated_at := now\<rparr>"
  have iu: "instance_user \<in> set (users d)"
    using assms(3) find_Some_set by fastforce
  have users: "consistent (d\<lparr>users := update_row user_pk (fold setattr_user as instance_user) (users d)\<rparr>)" for as
    using assms(1) iu
    by (intro consistent_update_user [where q = instance_user]) (simp_all add: fold_setattr_user_frame)
  have profs: "consistent d' \<Longrightarrow> profiles d' = profiles d
      \<Longrightarrow> consistent (d'\<lparr>profiles := update_row profile_pk ?new (profiles d)\<rparr>)" for d'
    using assms(2) consistent_update_profile [of d' "instance" ?new]
    by (simp add: fold_setattr_userprofile_frame)
  show ?thesis
  proof (cases "vd_user vd")
    case None
    then show ?thesis
      using profs [OF assms(1)] by (simp add: update_result [OF assms])
  next
    case (Some user_data)
    show ?thesis
    proof (cases "user_data = []")
      case True
      with Some show ?thesis
        using profs [OF assms(1)] by (simp add: update_result [OF assms])
    next
      case False
      with Some show ?thesis
        using profs [OF users [of user_data]] by (simp add: update_result [OF assms])
    qed
  qed
qed

lemma consistent_put_profile:
  assumes "consistent d"
  shows "consistent (snd (put_profile now d uid items))"
proof (cases "find (\<lambda>u. user_pk u = uid) (users d)")
  case None
  with assms show ?thesis by (simp add: put_profile_def)
next
  case (Some request_user)
  then have ru: "request_user \<in> set (users d)" "user_pk request_user = uid"
    using find_Some_set by fastforce+
  from assms ru(1) obtain p where p: "p \<in> set (profiles d)" "user_id p = user_pk request_user"
    "find (\<lambda>p. user_id p = user_pk request_user) (profiles d) = Some p"
    by (rule consistent_profile_of_user)
  from assms p(1) obtain u where u: "find (\<lambda>u. user_pk u = user_id p) (users d) = Some u"
    by (rule consistent_user_of_profile)
  have "put_profile now d uid items = update now d p (to_internal_value items)"
    using Some p(3) by (simp add: put_profile_def get_or_create_def)
  then show ?thesis
    using consistent_update [OF assms p(1) u] by simp
qed

lemma consistent_delete_user:
  assumes "consistent d"
  shows "consistent (delete_user d uid)"
proof -
  have "set (map user_id (filter (\<lambda>p. user_id p \<noteq> uid) (profiles d)))
        = set (map user_pk (filter (\<lambda>u. user_pk u \<noteq> uid) (users d)))"
  proof -
    have "set (map user_id (filter (\<lambda>p. user_id p \<noteq> uid) (profiles d)))
          = set (map user_id (profiles d)) - {uid}" by auto
    also have "\<dots> = set (map user_pk (users d)) - {uid}"
      using assms by (simp add: consistent_def)
    also have "\<dots> = set (map user_pk (filter (\<lambda>u. user_pk u \<noteq> uid) (users d)))" by auto
    finally show ?thesis .
  qed
  moreover have "\<forall>u \<in> set (filter (\<lambda>u. user_pk u \<noteq> uid) (users d)). user_pk u < next_user_pk d"
    using assms by (simp add: consistent_def)
  moreover have "\<forall>p \<in> set (filter (\<lambda>p. user_id p \<noteq> uid) (profiles d)). profile_pk p < next_profile_pk d"
    using assms by (simp add: consistent_def)
  ultimately show ?thesis
    using assms unfolding consistent_def delete_user_def
    by (simp add: distinct_map_filter del: set_map set_filter)
qed

lemma post_save_created:
  assumes "consistent d" and "user_pk self = next_user_pk d"
  shows "post_save now (d\<lparr>users := users d @ [self], next_user_pk := Suc (next_user_pk d)\<rparr>)
           self None True =
         (Inr (new_userprofile (next_profile_pk d) (next_user_pk d) now),
          d\<lparr>users := users d @ [self], next_user_pk := Suc (next_user_pk d),
            profiles := profiles d @ [new_userprofile (next_profile_pk d) (next_user_pk d) now],
            next_profile_pk := Suc (next_profile_pk d)\<rparr>)"
proof -
  let ?d1 = "d\<lparr>users := users d @ [self], next_user_pk := Suc (next_user_pk d)\<rparr>"
  let ?p = "new_userprofile (next_profile_pk d) (next_user_pk d) now"
  let ?d2 = "?d1\<lparr>profiles := profiles d @ [?p], next_profile_pk := Suc (next_profile_pk d)\<rparr>"
  have no_profile: "\<not> (\<exists>p \<in> set (profiles d). user_id p = next_user_pk d)"
  proof
    assume "\<exists>p \<in> set (profiles d). user_id p = next_user_pk d"
    then have "next_user_pk d \<in> set (map user_id (profiles d))" by force
    then have "next_user_pk d \<in> set (map user_pk (users d))"
      using assms(1) by (simp add: consistent_def)
    then show False using assms(1) by (auto simp: consistent_def)
  qed
  have no_pk: "\<forall>r \<in> set (profiles d). profile_pk r \<noteq> next_profile_pk d"
    using assms(1) by (auto simp: consistent_def)
  have created: "userprofile_create now ?d1 self = (Inr ?p, ?d2)"
    using no_profile assms(2) by (simp add: userprofile_create_def Let_def)
  have "\<not> (\<exists>r \<in> set (profiles ?d2). profile_pk r \<noteq> profile_pk ?p \<and> user_id r = user_id ?p)"
    using no_profile by (auto simp: new_userprofile_def)
  moreover have "?p\<lparr>updated_at := now\<rparr> = ?p"
    by (simp add: new_userprofile_def)
  moreover have "update_row profile_pk ?p (profiles d @ [?p]) = profiles d @ [?p]"
    using no_pk by (simp add: update_row_append update_row_absent new_userprofile_def)
       (simp add: update_row_def)
  ultimately have "userprofile_save now ?d2 ?p = (Inr ?p, ?d2)"
    by (simp add: userprofile_save_def Let_def)
  with created show ?thesis
    by (simp add: post_save_def create_user_profile_def save_user_profile_def)
qed

lemma consistent_insert:
  assumes "consistent d" and "user_pk self = next_user_pk d"
    and "\<not> (\<exists>u \<in> set (users d). username u = username self)"
  shows "consistent (d\<lparr>users := users d @ [self], next_user_pk := Suc (next_user_pk d),
            profiles := profiles d @ [new_userprofile (next_profile_pk d) (next_user_pk d) now],
            next_profile_pk := Suc (next_profile_pk d)\<rparr>)"
  using assms unfolding consistent_def
  by (auto simp: new_userprofile_def less_Suc_eq)

lemma list_all_takeWhile: "list_all P (takeWhile P xs)"
  by (induction xs) simp_all

section \<open>Claims about the derived values\<close>

text \<open>
  Claim C2. The derived \<open>full_name\<close> is the trimmed concatenation of first and last name,
  joined by one space: it is what remains of \<open>first_name + " " + last_name\<close> when white
  space is removed at both ends, so it neither starts nor ends with white space; when both
  names are trimmed and not empty nothing is removed. With the first name \<open>" Jane "\<close>
  trimmed by the store and the last name \<open>"Doe"\<close> it is \<open>"Jane Doe"\<close>.
\<close>

theorem full_name_trimmed_concatenation:
  "(\<exists>l r. first_name u @ '' '' @ last_name u = l @ full_name u @ r
          \<and> list_all isspace l \<and> list_all isspace r)
   \<and> (full_name u \<noteq> [] \<longrightarrow>
        \<not> isspace (hd (full_name u)) \<and> \<not> isspace (last (full_name u)))
   \<and> (first_name u \<noteq> [] \<and> strip (first_name u) = first_name u
        \<and> last_name u \<noteq> [] \<and> strip (last_name u) = last_name u \<longrightarrow>
        full_name u = first_name u @ '' '' @ last_name u)
   \<and> (first_name u = strip '' Jane '' \<and> last_name u = ''Doe'' \<longrightarrow>
        full_name u = ''Jane Doe'')"
proof (intro conjI impI)
  let ?s = "first_name u @ '' '' @ last_name u"
  have "?s = takeWhile isspace ?s @ full_name u @ rev (takeWhile isspace (rev (lstrip ?s)))"
    unfolding full_name_def by (rule strip_decomposition)
  moreover have "list_all isspace (takeWhile isspace ?s)"
    by (rule list_all_takeWhile)
  moreover have "list_all isspace (rev (takeWhile isspace (rev (lstrip ?s))))"
    using list_all_takeWhile [of isspace "rev (lstrip ?s)"] by (simp add: list_all_iff)
  ultimately show "\<exists>l r. ?s = l @ full_name u @ r \<and> list_all isspace l \<and> list_all isspace r"
    by blast
next
  assume "full_name u \<noteq> []"
  then show "\<not> isspace (hd (full_name u))"
    unfolding full_name_def by (rule strip_hd)
next
  assume "full_name u \<noteq> []"
  then show "\<not> isspace (last (full_name u))"
    unfolding full_name_def by (rule strip_last)
next
  assume "first_name u \<noteq> [] \<and> strip (first_name u) = first_name u
          \<and> last_name u \<noteq> [] \<and> strip (last_name u) = last_name u"
  then show "full_name u = first_name u @ '' '' @ last_name u"
    by (simp add: full_name_unchanged)
next
  assume "first_name u = strip '' Jane '' \<and> last_name u = ''Doe''"
  then show "full_name u = ''Jane Doe''"
    by (simp add: full_name_def strip_def lstrip_def rstrip_def isspace_def)
qed

theorem full_name_trimmed_concatenation_witness:
  "full_name example_user = ''Jane Doe''
   \<and> first_name example_user = strip '' Jane '' \<and> last_name example_user = ''Doe''
   \<and> \<not> isspace (hd (full_name example_user)) \<and> \<not> isspace (last (full_name example_user))"
  using full_name_trimmed_concatenation [of example_user]
  by (simp add: example_user_def strip_def lstrip_def rstrip_def isspace_def)

text \<open>
  Claim C4. For every skills string, \<open>skills_list\<close> is the string split on commas, each
  entry trimmed and the empty entries dropped; without a skills string it is empty. Every
  entry is not empty, is trimmed and holds no comma. It is a function of the stored string
  and not a column. For \<open>"Python, Go , ,Rust"\<close> it is \<open>["Python", "Go", "Rust"]\<close>.
\<close>

theorem skills_list_split_trim_drop:
  "(skills self = Some s \<longrightarrow> skills_list self = skills_list_spec s)
   \<and> (skills self = None \<longrightarrow> skills_list self = [])
   \<and> (\<forall>entry \<in> set (skills_list self).
         entry \<noteq> [] \<and> strip entry = entry \<and> CHR '','' \<notin> set entry)
   \<and> (skills self = Some ''Python, Go , ,Rust'' \<longrightarrow>
         skills_list self = [''Python'', ''Go'', ''Rust''])"
proof (intro conjI impI ballI)
  assume "skills self = Some s"
  then show "skills_list self = skills_list_spec s" by (rule skills_list_refines)
next
  assume "skills self = None"
  then show "skills_list self = []" by (simp add: skills_list_def)
next
  fix entry
  assume entry: "entry \<in> set (skills_list self)"
  then obtain s where s: "skills self = Some s"
    by (cases "skills self") (auto simp: skills_list_def)
  with entry have "entry \<in> set (map strip (filter (\<lambda>skill. strip skill \<noteq> []) (split CHR '','' s)))"
    by (simp add: skills_list_def split: if_splits)
  then obtain w where w: "w \<in> set (split CHR '','' s)" "strip w \<noteq> []" "entry = strip w"
    by auto
  show "entry \<noteq> []" using w by simp
  show "strip entry = entry" using w by (simp add: strip_idem)
  show "CHR '','' \<notin> set entry"
    using w split_no_sep [of w "CHR '',''" s] set_strip [of w] by auto
next
  assume "skills self = Some ''Python, Go , ,Rust''"
  then show "skills_list self = [''Python'', ''Go'', ''Rust'']"
    by (simp add: skills_list_def strip_def lstrip_def rstrip_def isspace_def)
qed

theorem skills_list_split_trim_drop_witness:
  "skills_list (example_profile\<lparr>skills := Some ''Python, Go , ,Rust''\<rparr>) = [''Python'', ''Go'', ''Rust'']
   \<and> skills_list_spec ''Python, Go , ,Rust'' = [''Python'', ''Go'', ''Rust'']
   \<and> skills_list example_profile = []"
  using skills_list_split_trim_drop [of "example_profile\<lparr>skills := Some ''Python, Go , ,Rust''\<rparr>" "''Python, Go , ,Rust''"]
    skills_list_split_trim_drop [of example_profile]
  by (simp add: example_profile_def new_userprofile_def skills_list_spec_def
        strip_def lstrip_def rstrip_def isspace_def)

section \<open>Login: facts\<close>

lemma login_validate_inactive:
  assumes "map_of attrs ''username'' = Some uname" and "map_of attrs ''password'' = Some pw"
    and "uname \<noteq> []" and "pw \<noteq> []"
  shows "(login_validate authenticate_parameter attrs = Inl (ValidationError ''User account is disabled'')
            \<longleftrightarrow> (\<exists>identity. authenticate_parameter uname pw = Some identity \<and> \<not> is_active identity))
       \<and> (login_validate authenticate_parameter attrs = Inl (ValidationError ''Invalid credentials'')
            \<longleftrightarrow> authenticate_parameter uname pw = None)"
  using assms by (auto simp: login_validate_def split: option.splits)

lemma authenticate_active:
  "authenticate fw d uname pw = Some identity \<Longrightarrow> is_active identity"
  by (auto simp: authenticate_def split: option.splits if_splits)

section \<open>Claims about login\<close>

text \<open>
  Claim C1 fails on the code with the framework's default backend. For every login attempt
  whose username and password match a stored identity whose active flag is false,
  \<open>authenticate\<close> yields no identity, so the validator fails with \<open>Invalid credentials\<close> and
  not with \<open>User account is disabled\<close>; and no login attempt at all fails with
  \<open>User account is disabled\<close>: the check of the active flag in \<open>validate\<close> is never reached
  with an inactive identity.
\<close>

theorem login_disabled_account_invalid_credentials:
  assumes "find (\<lambda>u. username u = uname) (users d) = Some identity"
    and "check_password fw pw (password identity)"
    and "\<not> is_active identity"
    and "map_of attrs ''username'' = Some uname" and "map_of attrs ''password'' = Some pw"
    and "uname \<noteq> []" and "pw \<noteq> []"
  shows "login_validate (authenticate fw d) attrs = Inl (ValidationError ''Invalid credentials'')
       \<and> (\<forall>attrs'. login_validate (authenticate fw d) attrs'
                      \<noteq> Inl (ValidationError ''User account is disabled''))"
proof (intro conjI allI)
  have "authenticate fw d uname pw = None"
    using assms(1,3) by (simp add: authenticate_def)
  then show "login_validate (authenticate fw d) attrs = Inl (ValidationError ''Invalid credentials'')"
    using login_validate_inactive [OF assms(4-7), of "authenticate fw d"] by simp
next
  fix attrs'
  show "login_validate (authenticate fw d) attrs' \<noteq> Inl (ValidationError ''User account is disabled'')"
    using authenticate_active [of fw d]
    by (auto simp: login_validate_def split: option.splits if_splits)
qed

theorem login_disabled_account_invalid_credentials_witness:
  "find (\<lambda>u. username u = ''jane'') (users example_db_disabled)
     = Some (example_user\<lparr>is_active := False\<rparr>)
   \<and> check_password example_framework ''correct-horse'' (password example_user)
   \<and> login_validate (authenticate example_framework example_db_disabled) example_login
     = Inl (ValidationError ''Invalid credentials'')"
  using login_disabled_account_invalid_credentials
    [of "''jane''" example_db_disabled "example_user\<lparr>is_active := False\<rparr>" example_framework
        "''correct-horse''" example_login]
  by (simp add: example_db_disabled_def example_db_def example_user_def example_framework_def
        example_login_def)

section \<open>Registration: facts\<close>

lemma find_append_last:
  "\<forall>x \<in> set xs. \<not> P x \<Longrightarrow> P y \<Longrightarrow> find P (xs @ [y]) = Some y"
  by (induction xs) auto

lemma create_user_cases:
  assumes "consistent d" and "create_user fw now d kwargs = (r, d')"
  shows "(d' = d \<and> (\<exists>e. r = Inl e))
       \<or> (\<exists>self. r = Inr self \<and> user_pk self = next_user_pk d
            \<and> \<not> (\<exists>u \<in> set (users d). username u = username self)
            \<and> d' = d\<lparr>users := users d @ [self], next_user_pk := Suc (next_user_pk d),
                     profiles := profiles d @ [new_userprofile (next_profile_pk d) (next_user_pk d) now],
                     next_profile_pk := Suc (next_profile_pk d)\<rparr>)"
proof (cases "map_of kwargs ''username''")
  case None
  with assms(2) show ?thesis by (auto simp: create_user_def)
next
  case (Some name)
  let ?self = "\<lparr>user_pk = next_user_pk d,
               username = normalize_username fw name,
               email = normalize_email fw (case map_of kwargs ''email'' of None \<Rightarrow> [] | Some e \<Rightarrow> e),
               first_name = (case map_of kwargs ''first_name'' of None \<Rightarrow> [] | Some n \<Rightarrow> n),
               last_name = (case map_of kwargs ''last_name'' of None \<Rightarrow> [] | Some n \<Rightarrow> n),
               password = make_password fw (map_of kwargs ''password''),
               is_active = True\<rparr>"
  have ps: "post_save now (d\<lparr>users := users d @ [?self], next_user_pk := Suc (next_user_pk d)\<rparr>)
              ?self None True =
            (Inr (new_userprofile (next_profile_pk d) (next_user_pk d) now),
             d\<lparr>users := users d @ [?self], next_user_pk := Suc (next_user_pk d),
               profiles := profiles d @ [new_userprofile (next_profile_pk d) (next_user_pk d) now],
               next_profile_pk := Suc (next_profile_pk d)\<rparr>)"
    using assms(1) by (intro post_save_created) simp_all
  show ?thesis
    using assms(2) Some unfolding create_user_def Let_def
    by (simp add: ps split: if_splits) auto
qed

lemma consistent_create_user:
  assumes "consistent d"
  shows "consistent (snd (create_user fw now d kwargs))"
proof -
  obtain r d' where res: "create_user fw now d kwargs = (r, d')"
    by (cases "create_user fw now d kwargs")
  from create_user_cases [OF assms res] show ?thesis
    using assms res consistent_insert [of d _ now] by auto
qed

lemma consistent_register:
  assumes "consistent d"
  shows "consistent (snd (register fw now d data))"
  using assms consistent_create_user [OF assms]
  by (simp add: register_def create_def split: sum.splits option.splits prod.splits)

lemma register_cases:
  assumes "consistent d" and "register fw now d data = (Inr self, d')"
  shows "user_pk self = next_user_pk d
       \<and> d' = d\<lparr>users := users d @ [self], next_user_pk := Suc (next_user_pk d),
                 profiles := profiles d @ [new_userprofile (next_profile_pk d) (next_user_pk d) now],
                 next_profile_pk := Suc (next_profile_pk d)\<rparr>"
proof -
  from assms(2) obtain kwargs where "create_user fw now d kwargs = (Inr self, d')"
    by (auto simp: register_def create_def split: sum.splits option.splits prod.splits)
  from create_user_cases [OF assms(1) this] show ?thesis by auto
qed

lemma create_user_result:
  assumes "consistent d"
    and "map_of kwargs ''username'' = Some name" and "name \<noteq> []"
    and "set (map fst kwargs) \<subseteq> set [''username'', ''email'', ''password'', ''first_name'', ''last_name'']"
    and "\<not> (\<exists>u \<in> set (users d). username u = normalize_username fw name)"
    and "self = \<lparr>user_pk = next_user_pk d,
               username = normalize_username fw name,
               email = normalize_email fw (case map_of kwargs ''email'' of None \<Rightarrow> [] | Some e \<Rightarrow> e),
               first_name = (case map_of kwargs ''first_name'' of None \<Rightarrow> [] | Some n \<Rightarrow> n),
               last_name = (case map_of kwargs ''last_name'' of None \<Rightarrow> [] | Some n \<Rightarrow> n),
               password = make_password fw (map_of kwargs ''password''),
               is_active = True\<rparr>"
  shows "create_user fw now d kwargs =
           (Inr self,
            d\<lparr>users := users d @ [self], next_user_pk := Suc (next_user_pk d),
              profiles := profiles d @ [new_userprofile (next_profile_pk d) (next_user_pk d) now],
              next_profile_pk := Suc (next_profile_pk d)\<rparr>)"
proof -
  have ps: "post_save now (d\<lparr>users := users d @ [self], next_user_pk := Suc (next_user_pk d)\<rparr>)
              self None True =
            (Inr (new_userprofile (next_profile_pk d) (next_user_pk d) now),
             d\<lparr>users := users d @ [self], next_user_pk := Suc (next_user_pk d),
               profiles := profiles d @ [new_userprofile (next_profile_pk d) (next_user_pk d) now],
               next_profile_pk := Suc (next_profile_pk d)\<rparr>)"
    using assms(1,6) by (intro post_save_created) simp_all
  have keys: "\<not> (\<exists>k \<in> set (map fst kwargs).
                   k \<notin> set [''username'', ''email'', ''password'', ''first_name'', ''last_name''])"
    using assms(4) by blast
  show ?thesis
    unfolding create_user_def Let_def assms(2) option.case
    using assms(3,5) keys ps unfolding assms(6) by simp
qed

lemma char_field_accepts:
  assumes "fst (char_field required allow_blank rules raw) = []"
  shows "snd (char_field required allow_blank rules raw) = map_option strip raw"
    and "raw = None \<Longrightarrow> \<not> required"
    and "\<And>v. raw = Some v \<Longrightarrow> strip v = [] \<Longrightarrow> allow_blank"
    and "\<And>v. raw = Some v \<Longrightarrow> strip v \<noteq> [] \<Longrightarrow> rules (strip v) = []"
  using assms by (auto simp: char_field_def split: option.splits if_splits)

lemma char_field_required:
  assumes "fst (char_field True False rules raw) = []"
  obtains v where "raw = Some v" and "strip v \<noteq> []" and "rules (strip v) = []"
    and "snd (char_field True False rules raw) = Some (strip v)"
  using assms by (auto simp: char_field_def split: option.splits if_splits)

lemma email_field_accepts:
  assumes "fst (email_field fw d raw) = []"
  shows "snd (email_field fw d raw) = map_option strip raw"
    and "\<And>v. raw = Some v \<Longrightarrow> \<not> (\<exists>u \<in> set (users d). email u = strip v)"
  using assms
  by (auto simp: email_field_def char_field_def validate_email_def
           split: option.splits if_splits prod.splits)

lemma field_validation_Nil:
  "field_validation fw d data = [] \<longleftrightarrow>
     fst (username_field fw d (map_of data ''username'')) = []
   \<and> fst (email_field fw d (map_of data ''email'')) = []
   \<and> fst (char_field False True (name_rules fw) (map_of data ''first_name'')) = []
   \<and> fst (char_field False True (name_rules fw) (map_of data ''last_name'')) = []
   \<and> fst (password_field (map_of data ''password'')) = []
   \<and> fst (password_confirm_field (map_of data ''password_confirm'')) = []"
  by (simp add: field_validation_def field_errors_def registration_results_def split_beta)

lemma field_validation_email:
  "Pair ''email'' ` set (fst (email_field fw d (map_of data ''email'')))
   \<subseteq> set (field_validation fw d data)"
  by (auto simp: field_validation_def field_errors_def registration_results_def split_beta)

lemma map_of_entry:
  "map_of (case v of None \<Rightarrow> [] | Some x \<Rightarrow> [(name, x)]) k = (if k = name then v else None)"
  by (cases v) auto

lemma map_of_field_values:
  "map_of (field_values (registration_results fw d data)) ''username''
     = snd (username_field fw d (map_of data ''username''))"
  "map_of (field_values (registration_results fw d data)) ''email''
     = snd (email_field fw d (map_of data ''email''))"
  "map_of (field_values (registration_results fw d data)) ''first_name''
     = snd (char_field False True (name_rules fw) (map_of data ''first_name''))"
  "map_of (field_values (registration_results fw d data)) ''last_name''
     = snd (char_field False True (name_rules fw) (map_of data ''last_name''))"
  "map_of (field_values (registration_results fw d data)) ''password''
     = snd (password_field (map_of data ''password''))"
  "map_of (field_values (registration_results fw d data)) ''password_confirm''
     = snd (password_confirm_field (map_of data ''password_confirm''))"
  by (simp_all add: field_values_def registration_results_def split_beta map_of_entry
        map_add_def split: option.splits)

lemma keys_field_values:
  "set (map fst (field_values (registration_results fw d data))) \<subseteq> set registration_fields"
  by (auto simp: field_values_def registration_results_def registration_fields_def split_beta
           split: option.splits)

lemma map_of_filter_key:
  "P k \<Longrightarrow> map_of (filter (\<lambda>(k', _). P k') xs) k = map_of xs k"
  by (induction xs) auto

lemma map_of_without_confirm:
  "k \<noteq> ''password_confirm''
   \<Longrightarrow> map_of (filter (\<lambda>(k', _). k' \<noteq> ''password_confirm'') xs) k = map_of xs k"
  using map_of_filter_key [of "\<lambda>k. k \<noteq> ''password_confirm''" k xs] by simp

lemma keys_without_confirm:
  "set (map fst xs) \<subseteq> set registration_fields
   \<Longrightarrow> set (map fst (filter (\<lambda>(k, _). k \<noteq> ''password_confirm'') xs))
       \<subseteq> set [''username'', ''email'', ''password'', ''first_name'', ''last_name'']"
  by (auto simp: registration_fields_def)

lemma register_field_errors:
  "field_validation fw d data \<noteq> []
   \<Longrightarrow> register fw now d data = (Inl (FieldErrors (field_validation fw d data)), d)"
  by (simp add: register_def run_validation_def field_validation_def Let_def)

lemmas example_defs =
  register_def run_validation_def field_validation_def field_errors_def field_values_def
  registration_results_def username_field_def email_field_def password_field_def
  password_confirm_field_def char_field_def registration_validate_def
  validate_email_def create_def pop_def create_user_def post_save_def create_user_profile_def
  save_user_profile_def userprofile_create_def userprofile_save_def update_row_def
  example_framework_def example_username_rules_def example_email_rules_def
  example_registration_def empty_db_def
  new_userprofile_def example_user_def example_db_def Let_def
  strip_def lstrip_def rstrip_def isspace_def

lemma example_registration_result:
  "register example_framework 10 empty_db example_registration = (Inr example_user, example_db)"
  by (simp add: example_defs)

section \<open>Claims about registration\<close>

text \<open>
  Claim C3 as stated fails. The framework trims the values of \<open>password\<close> and
  \<open>password_confirm\<close> before \<open>validate\<close> compares them: a registration whose password differs
  from its confirmation by a trailing space succeeds and an identity is persisted. And when
  a field rule fails, \<open>validate\<close> is not called: a registration with differing passwords
  that are too short fails with the error of the field \<open>password\<close> alone.
\<close>

theorem registration_trimmed_password_counterexample:
  "map_of example_trailing_space ''password'' = Some ''pass1234 ''
   \<and> map_of example_trailing_space ''password_confirm'' = Some ''pass1234''
   \<and> ''pass1234 '' \<noteq> ''pass1234''
   \<and> register example_framework 20 example_db example_trailing_space
       = (Inr example_joe,
          \<lparr>users = [example_user, example_joe],
           profiles = [new_userprofile 1 1 10, new_userprofile 2 2 20],
           next_user_pk = 3, next_profile_pk = 3\<rparr>)
   \<and> map_of example_short_mismatch ''password'' = Some ''short''
   \<and> map_of example_short_mismatch ''password_confirm'' = Some ''other''
   \<and> register example_framework 20 example_db example_short_mismatch
       = (Inl (FieldErrors [(''password'', ''Ensure this field has at least 8 characters.'')]),
          example_db)"
  by (simp add: example_defs example_trailing_space_def example_joe_def
        example_short_mismatch_def)

text \<open>
  Claim C3, amended. For every registration whose \<open>password\<close> and \<open>password_confirm\<close> differ
  after the white space around them is trimmed, \<open>validate\<close> fails with
  \<open>Passwords don't match\<close> on the parsed values, the registration fails and the store is
  unchanged, so no identity is persisted; the error reported is \<open>Passwords don't match\<close>
  when the field rules pass, and the errors of the field rules otherwise.
\<close>

theorem registration_password_mismatch:
  assumes "map_of data ''password'' = Some pw"
    and "map_of data ''password_confirm'' = Some pw_confirm"
    and "strip pw \<noteq> strip pw_confirm"
  shows "(\<forall>attrs. map_of attrs ''password'' = Some (strip pw)
               \<and> map_of attrs ''password_confirm'' = Some (strip pw_confirm) \<longrightarrow>
            registration_validate attrs = Inl (ValidationError ''Passwords don't match''))
       \<and> register fw now d data =
           (Inl (FieldErrors
                  (if field_validation fw d data = []
                   then [(''non_field_errors'', ''Passwords don't match'')]
                   else field_validation fw d data)),
            d)"
proof (intro conjI allI impI)
  fix attrs
  assume "map_of attrs ''password'' = Some (strip pw)
      \<and> map_of attrs ''password_confirm'' = Some (strip pw_confirm)"
  with assms(3) show "registration_validate attrs = Inl (ValidationError ''Passwords don't match'')"
    by (simp add: registration_validate_def)
next
  show "register fw now d data =
      (Inl (FieldErrors
             (if field_validation fw d data = []
              then [(''non_field_errors'', ''Passwords don't match'')]
              else field_validation fw d data)),
       d)"
  proof (cases "field_validation fw d data = []")
    case False
    then show ?thesis by (simp add: register_field_errors)
  next
    case True
    let ?parsed = "field_values (registration_results fw d data)"
    from True have ok: "fst (password_field (map_of data ''password'')) = []"
      "fst (password_confirm_field (map_of data ''password_confirm'')) = []"
      by (simp_all add: field_validation_Nil)
    have "map_of ?parsed ''password'' = Some (strip pw)"
      using char_field_accepts(1) [OF ok(1) [unfolded password_field_def]] assms(1)
      by (simp add: map_of_field_values password_field_def)
    moreover have "map_of ?parsed ''password_confirm'' = Some (strip pw_confirm)"
      using char_field_accepts(1) [OF ok(2) [unfolded password_confirm_field_def]] assms(2)
      by (simp add: map_of_field_values password_confirm_field_def)
    ultimately have "registration_validate ?parsed = Inl (ValidationError ''Passwords don't match'')"
      using assms(3) by (simp add: registration_validate_def)
    with True show ?thesis
      by (simp add: register_def run_validation_def field_validation_def Let_def)
  qed
qed

theorem registration_password_mismatch_witness:
  "register example_framework 20 example_db
       [(''username'', ''joe''), (''password'', ''correct-horse''), (''password_confirm'', ''correct-house'')]
     = (Inl (FieldErrors [(''non_field_errors'', ''Passwords don't match'')]), example_db)
   \<and> registration_validate
       [(''username'', ''joe''), (''password'', ''correct-horse''), (''password_confirm'', ''correct-house'')]
     = Inl (ValidationError ''Passwords don't match'')"
  using registration_password_mismatch
    [of "[(''username'', ''joe''), (''password'', ''correct-horse''), (''password_confirm'', ''correct-house'')]"
        "''correct-horse''" "''correct-house''" example_framework 20 example_db]
  by (simp add: example_defs)

text \<open>
  Claim C8. For every registration whose email, as the validator parses it, is the email of
  an existing identity, \<open>validate_email\<close> fails with
  \<open>A user with this email already exists.\<close>, the registration fails with an error on the
  field \<open>email\<close> and the store is unchanged, so no identity is created; the error carries
  that message when the generated rules accept the email.
\<close>

theorem registration_existing_email:
  assumes "u \<in> set (users d)" and "email u = v"
  shows "validate_email d v = Inl (ValidationError ''A user with this email already exists.'')
       \<and> (\<forall>raw. map_of data ''email'' = Some raw \<and> strip raw = v \<longrightarrow>
            (\<exists>errors. register fw now d data = (Inl (FieldErrors errors), d)
               \<and> ''email'' \<in> set (map fst errors)
               \<and> (v = [] \<or> email_rules fw v = [] \<longrightarrow>
                    (''email'', ''A user with this email already exists.'') \<in> set errors)))"
proof (intro conjI allI impI)
  show exists: "validate_email d v = Inl (ValidationError ''A user with this email already exists.'')"
    using assms by (auto simp: validate_email_def)
  fix raw
  assume raw: "map_of data ''email'' = Some raw \<and> strip raw = v"
  let ?errors = "field_validation fw d data"
  let ?field = "fst (email_field fw d (map_of data ''email''))"
  have field: "?field = (if v = [] \<or> email_rules fw v = []
                        then [''A user with this email already exists.'']
                        else email_rules fw v)"
    using raw exists by (auto simp: email_field_def char_field_def)
  then have "?field \<noteq> []" by auto
  then obtain m where m: "m \<in> set ?field" by (cases ?field) auto
  then have "(''email'', m) \<in> set ?errors"
    using field_validation_email [of fw d data] by auto
  then have key: "''email'' \<in> set (map fst ?errors)" by force
  then have "?errors \<noteq> []" by auto
  then have "register fw now d data = (Inl (FieldErrors ?errors), d)"
    by (rule register_field_errors)
  moreover have "v = [] \<or> email_rules fw v = [] \<longrightarrow>
      (''email'', ''A user with this email already exists.'') \<in> set ?errors"
    using field field_validation_email [of fw d data] by auto
  ultimately show "\<exists>errors. register fw now d data = (Inl (FieldErrors errors), d)
      \<and> ''email'' \<in> set (map fst errors)
      \<and> (v = [] \<or> email_rules fw v = [] \<longrightarrow>
           (''email'', ''A user with this email already exists.'') \<in> set errors)"
    using key by blast
qed

theorem registration_existing_email_witness:
  "validate_email example_db ''jane@example.org''
     = Inl (ValidationError ''A user with this email already exists.'')
   \<and> register example_framework 20 example_db
       [(''username'', ''joe''), (''email'', '' jane@example.org''),
        (''password'', ''correct-horse''), (''password_confirm'', ''correct-horse'')]
     = (Inl (FieldErrors [(''email'', ''A user with this email already exists.'')]), example_db)"
  using registration_existing_email
    [of example_user example_db "''jane@example.org''"
        "[(''username'', ''joe''), (''email'', '' jane@example.org''),
          (''password'', ''correct-horse''), (''password_confirm'', ''correct-horse'')]"
        example_framework 20]
  by (simp add: example_defs)

text \<open>
  Claim C9 as stated fails. The validator looks the username up as it is given, and the
  store normalises it before it is saved: a registration that passes every field rule, with
  matching passwords of at least 8 characters and an unused email, but whose username is
  normalised to the username of an existing identity, does not succeed. The store refuses
  the duplicate and stays as it was.
\<close>

theorem registration_normalised_username_counterexample:
  "register example_framework 10 empty_db example_registration = (Inr example_user, example_db)
   \<and> field_validation example_framework example_db example_colliding_username = []
   \<and> map_of example_colliding_username ''password'' = Some ''another-pass''
   \<and> map_of example_colliding_username ''password_confirm'' = Some ''another-pass''
   \<and> 8 \<le> length ''another-pass''
   \<and> map_of example_colliding_username ''email'' = Some ''other@example.org''
   \<and> validate_email example_db ''other@example.org'' = Inr ''other@example.org''
   \<and> register example_framework 20 example_db example_colliding_username
       = (Inl IntegrityError, example_db)"
  by (simp add: example_defs example_colliding_username_def)

text \<open>
  Claim C9, amended. In a consistent store, for every registration that passes the field
  rules (so its password has at least 8 characters, and no existing identity has its email
  nor its username as given), whose \<open>password\<close> and \<open>password_confirm\<close> are equal after
  trimming, and whose username as the store normalises it is not the username of an existing
  identity, registration succeeds: the identity is stored with the hashed password and
  without the confirmation, and a profile is created for it with \<open>experience_years\<close> 0,
  \<open>is_recruiter\<close> false and every optional field empty.
\<close>

theorem registration_succeeds:
  assumes "consistent d"
    and "field_validation fw d data = []"
    and "map_of data ''username'' = Some raw_username"
    and "map_of data ''password'' = Some raw_password"
    and "map_of data ''password_confirm'' = Some raw_confirm"
    and "strip raw_password = strip raw_confirm"
    and "\<not> (\<exists>u \<in> set (users d). username u = normalize_username fw (strip raw_username))"
    and "identity =
           \<lparr>user_pk = next_user_pk d,
            username = normalize_username fw (strip raw_username),
            email = normalize_email fw
                      (case map_of data ''email'' of None \<Rightarrow> [] | Some e \<Rightarrow> strip e),
            first_name = (case map_of data ''first_name'' of None \<Rightarrow> [] | Some n \<Rightarrow> strip n),
            last_name = (case map_of data ''last_name'' of None \<Rightarrow> [] | Some n \<Rightarrow> strip n),
            password = make_password fw (Some (strip raw_password)),
            is_active = True\<rparr>"
    and "profile = new_userprofile (next_profile_pk d) (next_user_pk d) now"
    and "d' = d\<lparr>users := users d @ [identity], next_user_pk := Suc (next_user_pk d),
                profiles := profiles d @ [profile],
                next_profile_pk := Suc (next_profile_pk d)\<rparr>"
  shows "register fw now d data = (Inr identity, d')
       \<and> 8 \<le> length (strip raw_password)
       \<and> (\<forall>raw. map_of data ''email'' = Some raw \<longrightarrow>
             \<not> (\<exists>u \<in> set (users d). email u = strip raw))
       \<and> \<not> (\<exists>u \<in> set (users d). username u = strip raw_username)
       \<and> find (\<lambda>u. user_pk u = user_pk identity) (users d') = Some identity
       \<and> find (\<lambda>p. user_id p = user_pk identity) (profiles d') = Some profile
       \<and> experience_years profile = 0 \<and> \<not> is_recruiter profile
       \<and> phone_number profile = None \<and> date_of_birth profile = None \<and> location profile = None
       \<and> bio profile = None \<and> skills profile = None \<and> linkedin_url profile = None
       \<and> github_url profile = None \<and> resume profile = None \<and> profile_picture profile = None
       \<and> company profile = None
       \<and> consistent d'"
proof -
  define vals where "vals = field_values (registration_results fw d data)"
  define kwargs where "kwargs = filter (\<lambda>(k, _). k \<noteq> ''password_confirm'') vals"
  note ok = assms(2) [unfolded field_validation_Nil]
  have uname: "strip raw_username \<noteq> []"
    "\<not> (\<exists>u \<in> set (users d). username u = strip raw_username)"
    "snd (username_field fw d (map_of data ''username'')) = Some (strip raw_username)"
    using ok assms(3)
    by (auto simp: username_field_def char_field_def split: if_splits)
  have pw: "8 \<le> length (strip raw_password)"
    "snd (password_field (map_of data ''password'')) = Some (strip raw_password)"
    using ok assms(4)
    by (auto simp: password_field_def char_field_def split: if_splits)
  have confirm: "snd (password_confirm_field (map_of data ''password_confirm''))
      = Some (strip raw_confirm)"
    using ok assms(5)
    by (auto simp: password_confirm_field_def char_field_def split: if_splits)
  have mail: "snd (email_field fw d (map_of data ''email'')) = map_option strip (map_of data ''email'')"
    "\<forall>raw. map_of data ''email'' = Some raw \<longrightarrow> \<not> (\<exists>u \<in> set (users d). email u = strip raw)"
  proof -
    from ok have e: "fst (email_field fw d (map_of data ''email'')) = []" by simp
    show "snd (email_field fw d (map_of data ''email'')) = map_option strip (map_of data ''email'')"
      using e by (rule email_field_accepts(1))
    show "\<forall>raw. map_of data ''email'' = Some raw \<longrightarrow>
        \<not> (\<exists>u \<in> set (users d). email u = strip raw)"
      using email_field_accepts(2) [OF e] by blast
  qed
  have names: "snd (char_field False True (name_rules fw) (map_of data ''first_name''))
      = map_option strip (map_of data ''first_name'')"
    "snd (char_field False True (name_rules fw) (map_of data ''last_name''))
      = map_option strip (map_of data ''last_name'')"
    using ok char_field_accepts(1) by simp_all
  have vals: "map_of vals ''username'' = Some (strip raw_username)"
    "map_of vals ''password'' = Some (strip raw_password)"
    "map_of vals ''password_confirm'' = Some (strip raw_confirm)"
    "map_of vals ''email'' = map_option strip (map_of data ''email'')"
    "map_of vals ''first_name'' = map_option strip (map_of data ''first_name'')"
    "map_of vals ''last_name'' = map_option strip (map_of data ''last_name'')"
    unfolding vals_def
    by (simp_all only: map_of_field_values uname pw confirm mail names)
  have "registration_validate vals = Inr vals"
    using vals(2,3) assms(6) by (simp add: registration_validate_def)
  then have valid: "run_validation fw d data = Inr vals"
    using assms(2)
    by (simp add: run_validation_def field_validation_def Let_def vals_def)
  have kw: "map_of kwargs ''username'' = Some (strip raw_username)"
    "map_of kwargs ''password'' = Some (strip raw_password)"
    "map_of kwargs ''email'' = map_option strip (map_of data ''email'')"
    "map_of kwargs ''first_name'' = map_option strip (map_of data ''first_name'')"
    "map_of kwargs ''last_name'' = map_option strip (map_of data ''last_name'')"
    unfolding kwargs_def by (simp_all add: map_of_without_confirm vals)
  have keys: "set (map fst kwargs)
      \<subseteq> set [''username'', ''email'', ''password'', ''first_name'', ''last_name'']"
    unfolding kwargs_def vals_def by (intro keys_without_confirm keys_field_values)
  have self: "identity =
      \<lparr>user_pk = next_user_pk d,
       username = normalize_username fw (strip raw_username),
       email = normalize_email fw (case map_of kwargs ''email'' of None \<Rightarrow> [] | Some e \<Rightarrow> e),
       first_name = (case map_of kwargs ''first_name'' of None \<Rightarrow> [] | Some n \<Rightarrow> n),
       last_name = (case map_of kwargs ''last_name'' of None \<Rightarrow> [] | Some n \<Rightarrow> n),
       password = make_password fw (map_of kwargs ''password''),
       is_active = True\<rparr>"
    unfolding assms(8) kw by (simp split: option.splits)
  have "create_user fw now d kwargs = (Inr identity, d')"
    unfolding assms(10) assms(9)
    by (rule create_user_result [OF assms(1) kw(1) uname(1) keys assms(7) self])
  then have reg: "register fw now d data = (Inr identity, d')"
    using valid vals(3) by (simp add: register_def create_def pop_def kwargs_def)
  have fresh: "\<forall>u \<in> set (users d). \<not> user_pk u = user_pk identity"
    using assms(1) by (auto simp: consistent_def assms(8))
  have "\<forall>p \<in> set (profiles d). \<not> user_id p = user_pk identity"
  proof
    fix p assume "p \<in> set (profiles d)"
    then have "user_id p \<in> set (map user_pk (users d))"
      using assms(1) unfolding consistent_def by (metis image_eqI set_map)
    then show "\<not> user_id p = user_pk identity" using fresh by auto
  qed
  then have "find (\<lambda>p. user_id p = user_pk identity) (profiles d') = Some profile"
    unfolding assms(10) by (simp add: find_append_last assms(8,9) new_userprofile_def)
  moreover have "find (\<lambda>u. user_pk u = user_pk identity) (users d') = Some identity"
    unfolding assms(10) using fresh by (simp add: find_append_last)
  moreover have "consistent d'"
    unfolding assms(10) assms(9)
    using assms(1,7) by (intro consistent_insert) (simp_all add: assms(8))
  ultimately show ?thesis
    using reg pw(1) mail(2) uname(2) by (simp add: assms(9) new_userprofile_def)
qed

theorem registration_succeeds_witness:
  "register example_framework 10 empty_db example_registration = (Inr example_user, example_db)
   \<and> password example_user = make_password example_framework (Some ''correct-horse'')
   \<and> first_name example_user = strip '' Jane ''
   \<and> find (\<lambda>p. user_id p = user_pk example_user) (profiles example_db) = Some (new_userprofile 1 1 10)
   \<and> consistent example_db"
  using registration_succeeds
    [of empty_db example_framework example_registration "''jane''" "''correct-horse''"
        "''correct-horse''" example_user "new_userprofile 1 1 10" 10 example_db]
  by (simp add: consistent_def example_defs)

section \<open>Profile update: facts\<close>

lemma user_key_not_profile_key: "user_attr_key b \<noteq> profile_attr_key a"
  by (cases a; cases b) simp_all

lemma getattr_setattr_user_same:
  "user_attr_key a = user_attr_key b \<Longrightarrow> getattr_user (setattr_user b u) a = b"
  by (cases a; cases b) simp_all

lemma getattr_setattr_user_other:
  "user_attr_key a \<noteq> user_attr_key b \<Longrightarrow> getattr_user (setattr_user b u) a = getattr_user u a"
  by (cases a; cases b) simp_all

lemma getattr_setattr_userprofile_same:
  "profile_attr_key a = profile_attr_key b \<Longrightarrow> getattr_userprofile (setattr_userprofile b p) a = b"
  by (cases a; cases b) simp_all

lemma getattr_setattr_userprofile_other:
  "profile_attr_key a \<noteq> profile_attr_key b
   \<Longrightarrow> getattr_userprofile (setattr_userprofile b p) a = getattr_userprofile p a"
  by (cases a; cases b) simp_all

lemma getattr_userprofile_updated_at:
  "getattr_userprofile (p\<lparr>updated_at := t\<rparr>) a = getattr_userprofile p a"
  by (cases a) simp_all

lemma fold_setattr_user_absent:
  "user_attr_key a \<notin> set (map user_attr_key as)
   \<Longrightarrow> getattr_user (fold setattr_user as u) a = getattr_user u a"
  by (induction as arbitrary: u) (simp_all add: getattr_setattr_user_other)

lemma fold_setattr_user_present:
  "distinct (map user_attr_key as) \<Longrightarrow> a \<in> set as
   \<Longrightarrow> getattr_user (fold setattr_user as u) a = a"
proof (induction as arbitrary: u)
  case Nil
  then show ?case by simp
next
  case (Cons b bs)
  show ?case
  proof (cases "a = b")
    case True
    with Cons.prems(1) show ?thesis
      by (simp add: fold_setattr_user_absent getattr_setattr_user_same)
  next
    case False
    with Cons show ?thesis by simp
  qed
qed

lemma fold_setattr_userprofile_absent:
  "profile_attr_key a \<notin> set (map profile_attr_key as)
   \<Longrightarrow> getattr_userprofile (fold setattr_userprofile as p) a = getattr_userprofile p a"
  by (induction as arbitrary: p) (simp_all add: getattr_setattr_userprofile_other)

lemma fold_setattr_userprofile_present:
  "distinct (map profile_attr_key as) \<Longrightarrow> a \<in> set as
   \<Longrightarrow> getattr_userprofile (fold setattr_userprofile as p) a = a"
proof (induction as arbitrary: p)
  case Nil
  then show ?case by simp
next
  case (Cons b bs)
  show ?case
  proof (cases "a = b")
    case True
    with Cons.prems(1) show ?thesis
      by (simp add: fold_setattr_userprofile_absent getattr_setattr_userprofile_same)
  next
    case False
    with Cons show ?thesis by simp
  qed
qed

lemma set_identity_items: "a \<in> set (identity_items data) \<longleftrightarrow> Identity_field a \<in> set data"
  by (induction data rule: identity_items.induct) auto

lemma set_profile_items: "a \<in> set (profile_items data) \<longleftrightarrow> Profile_field a \<in> set data"
  by (induction data rule: profile_items.induct) auto

lemma keys_identity_items:
  "set (map user_attr_key (identity_items data)) \<subseteq> set (map request_key data)"
  by (induction data rule: identity_items.induct) auto

lemma keys_profile_items:
  "set (map profile_attr_key (profile_items data)) \<subseteq> set (map request_key data)"
  by (induction data rule: profile_items.induct) auto

lemma user_key_absent:
  "user_attr_key a \<notin> set (map user_attr_key (identity_items data))
   \<longleftrightarrow> user_attr_key a \<notin> set (map request_key data)"
  by (induction data rule: identity_items.induct) (auto simp: user_key_not_profile_key)

lemma profile_key_absent:
  "profile_attr_key a \<notin> set (map profile_attr_key (profile_items data))
   \<longleftrightarrow> profile_attr_key a \<notin> set (map request_key data)"
  by (induction data rule: profile_items.induct)
     (auto simp: user_key_not_profile_key [symmetric])

lemma distinct_identity_items:
  "distinct (map request_key data) \<Longrightarrow> distinct (map user_attr_key (identity_items data))"
proof (induction data rule: identity_items.induct)
  case (2 a data)
  then show ?case using keys_identity_items [of data] by auto
qed simp_all

lemma distinct_profile_items:
  "distinct (map request_key data) \<Longrightarrow> distinct (map profile_attr_key (profile_items data))"
proof (induction data rule: profile_items.induct)
  case (3 a data)
  then show ?case using keys_profile_items [of data] by auto
qed simp_all

lemma filter_update_row:
  "filter (\<lambda>r. key r \<noteq> key self) (update_row key self rows)
   = filter (\<lambda>r. key r \<noteq> key self) rows"
  by (induction rows) (simp_all add: update_row_def)

lemma find_key_update_row:
  assumes "find (\<lambda>r. g r = x) rows = Some q" and "key self = key q" and "g self = g q"
    and "distinct (map key rows)"
  shows "find (\<lambda>r. g r = x) (update_row key self rows) = Some self"
proof -
  have q: "q \<in> set rows" using assms(1) find_Some_set by fastforce
  have "\<And>r. r \<in> set rows \<Longrightarrow> key r = key self \<Longrightarrow> g r = g self"
    using assms(2-4) q key_unique [of key rows q] by auto
  then have "find (\<lambda>r. g r = x) (update_row key self rows)
      = map_option (\<lambda>r. if key r = key self then self else r) (find (\<lambda>r. g r = x) rows)"
    by (rule find_update_row)
  with assms(1,2) show ?thesis by simp
qed

lemma put_profile_result:
  assumes "consistent d"
    and "find (\<lambda>u. user_pk u = uid) (users d) = Some identity"
    and "find (\<lambda>p. user_id p = uid) (profiles d) = Some before"
    and "identity_after = fold setattr_user (identity_items items) identity"
    and "after = (fold setattr_userprofile (profile_items items) before)\<lparr>updated_at := now\<rparr>"
    and "d' = d\<lparr>users := (if identity_items items = [] then users d
                           else update_row user_pk identity_after (users d)),
                profiles := update_row profile_pk after (profiles d)\<rparr>"
  shows "put_profile now d uid items = (Inr after, d')"
    and "find (\<lambda>u. user_pk u = uid) (users d') = Some identity_after"
    and "find (\<lambda>p. user_id p = uid) (profiles d') = Some after"
proof -
  have b: "before \<in> set (profiles d)" "user_id before = uid"
    using assms(3) find_Some_set by fastforce+
  have i: "identity \<in> set (users d)" "user_pk identity = uid"
    using assms(2) find_Some_set by fastforce+
  have fu: "find (\<lambda>u. user_pk u = user_id before) (users d) = Some identity"
    using assms(2) b(2) by simp
  have "put_profile now d uid items = update now d before (to_internal_value items)"
    using assms(2,3) i(2) by (simp add: put_profile_def get_or_create_def)
  also have "\<dots> = (Inr after, d')"
    unfolding assms(4,5,6) update_result [OF assms(1) b(1) fu]
    by (simp add: to_internal_value_def)
  finally show "put_profile now d uid items = (Inr after, d')" .
  have "find (\<lambda>p. user_id p = uid) (update_row profile_pk after (profiles d)) = Some after"
    using assms(1,3)
    by (intro find_key_update_row [where q = before])
       (simp_all add: assms(5) fold_setattr_userprofile_frame consistent_def)
  then show "find (\<lambda>p. user_id p = uid) (profiles d') = Some after"
    by (simp add: assms(6))
  show "find (\<lambda>u. user_pk u = uid) (users d') = Some identity_after"
  proof (cases "identity_items items = []")
    case True
    with assms(2) show ?thesis by (simp add: assms(4,6))
  next
    case False
    have "find (\<lambda>u. user_pk u = uid) (update_row user_pk identity_after (users d))
          = Some identity_after"
      using assms(1,2)
      by (intro find_key_update_row [where q = identity])
         (simp_all add: assms(4) fold_setattr_user_frame consistent_def)
    with False show ?thesis by (simp add: assms(6))
  qed
qed

lemma example_db_company_facts:
  "consistent example_db_company"
  "find (\<lambda>u. user_pk u = 1) (users example_db_company) = Some example_user"
  "find (\<lambda>p. user_id p = 1) (profiles example_db_company) = Some example_profile"
  by (simp_all add: consistent_def example_db_company_def example_db_def example_user_def
        example_profile_def new_userprofile_def)

section \<open>Claims about the profile update\<close>

text \<open>
  Claim C5. For every profile update request (a dictionary, so its keys are distinct) of an
  identity in a consistent store, and for every updatable field: when the field's key is
  absent from the request the stored value is unchanged after the update, and when it is
  present the stored value is the given one. The fields \<open>first_name\<close> and \<open>last_name\<close> are
  read on the stored identity, the others on the stored profile. In particular, with
  company \<open>A\<close> stored, the update \<open>{bio: "hi"}\<close> leaves company \<open>A\<close> and sets bio to \<open>hi\<close>.
\<close>

theorem update_patches_by_key_presence:
  assumes "consistent d"
    and "find (\<lambda>u. user_pk u = uid) (users d) = Some identity"
    and "find (\<lambda>p. user_id p = uid) (profiles d) = Some before"
    and "distinct (map request_key items)"
  shows "\<exists>after identity_after d'.
           put_profile now d uid items = (Inr after, d')
         \<and> find (\<lambda>u. user_pk u = uid) (users d') = Some identity_after
         \<and> find (\<lambda>p. user_id p = uid) (profiles d') = Some after
         \<and> (\<forall>a. user_attr_key a \<notin> set (map request_key items) \<longrightarrow>
                getattr_user identity_after a = getattr_user identity a)
         \<and> (\<forall>a. Identity_field a \<in> set items \<longrightarrow> getattr_user identity_after a = a)
         \<and> (\<forall>a. profile_attr_key a \<notin> set (map request_key items) \<longrightarrow>
                getattr_userprofile after a = getattr_userprofile before a)
         \<and> (\<forall>a. Profile_field a \<in> set items \<longrightarrow> getattr_userprofile after a = a)"
proof -
  define identity_after where "identity_after = fold setattr_user (identity_items items) identity"
  define after where
    "after = (fold setattr_userprofile (profile_items items) before)\<lparr>updated_at := now\<rparr>"
  define d' where
    "d' = d\<lparr>users := (if identity_items items = [] then users d
                        else update_row user_pk identity_after (users d)),
             profiles := update_row profile_pk after (profiles d)\<rparr>"
  note result = put_profile_result [OF assms(1-3) identity_after_def after_def d'_def]
  have "\<forall>a. user_attr_key a \<notin> set (map request_key items) \<longrightarrow>
          getattr_user identity_after a = getattr_user identity a"
  proof (intro allI impI)
    fix a
    assume "user_attr_key a \<notin> set (map request_key items)"
    then have "user_attr_key a \<notin> set (map user_attr_key (identity_items items))"
      using user_key_absent [of a items] by blast
    then show "getattr_user identity_after a = getattr_user identity a"
      unfolding identity_after_def by (rule fold_setattr_user_absent)
  qed
  moreover have "\<forall>a. Identity_field a \<in> set items \<longrightarrow> getattr_user identity_after a = a"
    unfolding identity_after_def
    using distinct_identity_items [OF assms(4)]
    by (simp add: fold_setattr_user_present set_identity_items)
  moreover have "\<forall>a. profile_attr_key a \<notin> set (map request_key items) \<longrightarrow>
          getattr_userprofile after a = getattr_userprofile before a"
  proof (intro allI impI)
    fix a
    assume "profile_attr_key a \<notin> set (map request_key items)"
    then have "profile_attr_key a \<notin> set (map profile_attr_key (profile_items items))"
      using profile_key_absent [of a items] by blast
    then show "getattr_userprofile after a = getattr_userprofile before a"
      unfolding after_def getattr_userprofile_updated_at
      by (rule fold_setattr_userprofile_absent)
  qed
  moreover have "\<forall>a. Profile_field a \<in> set items \<longrightarrow> getattr_userprofile after a = a"
    unfolding after_def getattr_userprofile_updated_at
    using distinct_profile_items [OF assms(4)]
    by (simp add: fold_setattr_userprofile_present set_profile_items)
  ultimately show ?thesis using result by blast
qed

theorem update_patches_by_key_presence_witness:
  "\<exists>after d'. put_profile 30 example_db_company 1 [Profile_field (Bio (Some ''hi''))] = (Inr after, d')
      \<and> find (\<lambda>p. user_id p = 1) (profiles d') = Some after
      \<and> company example_profile = Some ''A''
      \<and> company after = Some ''A'' \<and> bio after = Some ''hi''"
proof -
  have "distinct (map request_key [Profile_field (Bio (Some ''hi''))])" by simp
  from update_patches_by_key_presence [OF example_db_company_facts this, of 30]
  obtain after identity_after d' where
    r: "put_profile 30 example_db_company 1 [Profile_field (Bio (Some ''hi''))] = (Inr after, d')"
      "find (\<lambda>p. user_id p = 1) (profiles d') = Some after"
    and absent: "\<And>a. profile_attr_key a \<notin> set (map request_key [Profile_field (Bio (Some ''hi''))]) \<Longrightarrow>
              getattr_userprofile after a = getattr_userprofile example_profile a"
    and present: "\<And>a. Profile_field a \<in> set [Profile_field (Bio (Some ''hi''))] \<Longrightarrow>
              getattr_userprofile after a = a"
    by blast
  have "getattr_userprofile after (Company None) = getattr_userprofile example_profile (Company None)"
    by (rule absent) simp
  then have "company after = Some ''A''"
    by (simp add: example_profile_def)
  moreover have "getattr_userprofile after (Bio (Some ''hi'')) = Bio (Some ''hi'')"
    by (rule present) simp
  then have "bio after = Some ''hi''" by simp
  moreover have "company example_profile = Some ''A''" by (simp add: example_profile_def)
  ultimately show ?thesis using r by blast
qed

text \<open>
  Claim C6. For every profile update request of an identity in a consistent store, the
  items of \<open>first_name\<close> and \<open>last_name\<close> are routed to the dictionary under \<open>user\<close> and are
  persisted on the identity row; every other item is persisted on the profile row. The
  other columns of the two rows, except the profile's \<open>updated_at\<close>, and all other rows
  are as before, and the identity table is not written when the request has no identity item.
\<close>

theorem update_routes_identity_and_profile_fields:
  assumes "consistent d"
    and "find (\<lambda>u. user_pk u = uid) (users d) = Some identity"
    and "find (\<lambda>p. user_id p = uid) (profiles d) = Some before"
    and "distinct (map request_key items)"
  shows "\<exists>after identity_after d'.
           put_profile now d uid items = (Inr after, d')
         \<and> (\<forall>a. a \<in> set (identity_items items) \<longleftrightarrow> Identity_field a \<in> set items)
         \<and> (\<forall>a. a \<in> set (vd_items (to_internal_value items)) \<longleftrightarrow> Profile_field a \<in> set items)
         \<and> vd_user (to_internal_value items)
             = (if identity_items items = [] then None else Some (identity_items items))
         \<and> find (\<lambda>u. user_pk u = uid) (users d') = Some identity_after
         \<and> (\<forall>a. Identity_field a \<in> set items \<longrightarrow> getattr_user identity_after a = a)
         \<and> find (\<lambda>p. user_id p = uid) (profiles d') = Some after
         \<and> (\<forall>a. Profile_field a \<in> set items \<longrightarrow> getattr_userprofile after a = a)
         \<and> username identity_after = username identity \<and> email identity_after = email identity
         \<and> password identity_after = password identity
         \<and> is_active identity_after = is_active identity
         \<and> user_id after = uid \<and> profile_pk after = profile_pk before
         \<and> resume after = resume before \<and> profile_picture after = profile_picture before
         \<and> created_at after = created_at before
         \<and> filter (\<lambda>u. user_pk u \<noteq> uid) (users d') = filter (\<lambda>u. user_pk u \<noteq> uid) (users d)
         \<and> filter (\<lambda>p. profile_pk p \<noteq> profile_pk before) (profiles d')
             = filter (\<lambda>p. profile_pk p \<noteq> profile_pk before) (profiles d)
         \<and> (identity_items items = [] \<longrightarrow> users d' = users d)"
proof -
  define identity_after where "identity_after = fold setattr_user (identity_items items) identity"
  define after where
    "after = (fold setattr_userprofile (profile_items items) before)\<lparr>updated_at := now\<rparr>"
  define d' where
    "d' = d\<lparr>users := (if identity_items items = [] then users d
                        else update_row user_pk identity_after (users d)),
             profiles := update_row profile_pk after (profiles d)\<rparr>"
  note result = put_profile_result [OF assms(1-3) identity_after_def after_def d'_def]
  have b: "user_id before = uid" and i: "user_pk identity = uid"
    using assms(2,3) find_Some_set by fastforce+
  have "\<forall>a. Identity_field a \<in> set items \<longrightarrow> getattr_user identity_after a = a"
    unfolding identity_after_def
    using distinct_identity_items [OF assms(4)]
    by (simp add: fold_setattr_user_present set_identity_items)
  moreover have "\<forall>a. Profile_field a \<in> set items \<longrightarrow> getattr_userprofile after a = a"
    unfolding after_def getattr_userprofile_updated_at
    using distinct_profile_items [OF assms(4)]
    by (simp add: fold_setattr_userprofile_present set_profile_items)
  moreover have "username identity_after = username identity \<and> email identity_after = email identity
      \<and> password identity_after = password identity \<and> is_active identity_after = is_active identity"
    by (simp add: identity_after_def fold_setattr_user_frame)
  moreover have "user_id after = uid \<and> profile_pk after = profile_pk before
      \<and> resume after = resume before \<and> profile_picture after = profile_picture before
      \<and> created_at after = created_at before"
    by (simp add: after_def fold_setattr_userprofile_frame b)
  moreover have "filter (\<lambda>u. user_pk u \<noteq> uid) (users d') = filter (\<lambda>u. user_pk u \<noteq> uid) (users d)"
    using filter_update_row [of user_pk identity_after "users d"]
    by (simp add: d'_def identity_after_def fold_setattr_user_frame i)
  moreover have "filter (\<lambda>p. profile_pk p \<noteq> profile_pk before) (profiles d')
      = filter (\<lambda>p. profile_pk p \<noteq> profile_pk before) (profiles d)"
    using filter_update_row [of profile_pk after "profiles d"]
    by (simp add: d'_def after_def fold_setattr_userprofile_frame)
  moreover have "identity_items items = [] \<longrightarrow> users d' = users d"
    by (simp add: d'_def)
  moreover have "\<forall>a. a \<in> set (identity_items items) \<longleftrightarrow> Identity_field a \<in> set items"
    by (simp add: set_identity_items)
  moreover have "\<forall>a. a \<in> set (vd_items (to_internal_value items)) \<longleftrightarrow> Profile_field a \<in> set items"
    by (simp add: to_internal_value_def set_profile_items)
  moreover have "vd_user (to_internal_value items)
      = (if identity_items items = [] then None else Some (identity_items items))"
    by (simp add: to_internal_value_def)
  ultimately show ?thesis using result by blast
qed

theorem update_routes_identity_and_profile_fields_witness:
  "\<exists>after identity_after d'.
      put_profile 30 example_db_company 1
        [Identity_field (First_name ''Janet''), Profile_field (Location (Some ''Leeds''))]
        = (Inr after, d')
      \<and> find (\<lambda>u. user_pk u = 1) (users d') = Some identity_after
      \<and> first_name identity_after = ''Janet''
      \<and> find (\<lambda>p. user_id p = 1) (profiles d') = Some after
      \<and> location after = Some ''Leeds''"
proof -
  let ?items = "[Identity_field (First_name ''Janet''), Profile_field (Location (Some ''Leeds''))]"
  have "distinct (map request_key ?items)" by simp
  from update_routes_identity_and_profile_fields [OF example_db_company_facts this, of 30]
  obtain after identity_after d' where
    r: "put_profile 30 example_db_company 1 ?items = (Inr after, d')"
      "find (\<lambda>u. user_pk u = 1) (users d') = Some identity_after"
      "find (\<lambda>p. user_id p = 1) (profiles d') = Some after"
    and identity: "\<And>a. Identity_field a \<in> set ?items \<Longrightarrow> getattr_user identity_after a = a"
    and profile: "\<And>a. Profile_field a \<in> set ?items \<Longrightarrow> getattr_userprofile after a = a"
    by blast
  have "getattr_user identity_after (First_name ''Janet'') = First_name ''Janet''"
    by (rule identity) simp
  then have "first_name identity_after = ''Janet''" by simp
  moreover have "getattr_userprofile after (Location (Some ''Leeds'')) = Location (Some ''Leeds'')"
    by (rule profile) simp
  then have "location after = Some ''Leeds''" by simp
  ultimately show ?thesis using r by blast
qed

section \<open>Reachable stores: facts\<close>


lemma filter_key_singleton:
  "distinct (map f xs) \<Longrightarrow> x \<in> set xs \<Longrightarrow> filter (\<lambda>y. f y = f x) xs = [x]"
proof (induction xs)
  case Nil
  then show ?case by simp
next
  case (Cons y ys)
  show ?case
  proof (cases "x = y")
    case True
    have "filter (\<lambda>z. f z = f y) ys = []"
      using Cons.prems(1) by (fastforce simp: filter_empty_conv image_iff)
    with True show ?thesis by simp
  next
    case False
    with Cons have "filter (\<lambda>z. f z = f x) ys = [x]" and "f y \<noteq> f x"
      by auto
    then show ?thesis by simp
  qed
qed

lemma reachable_consistent: "reachable fw d \<Longrightarrow> consistent d"
proof (induction rule: reachable.induct)
  case reachable_empty
  show ?case by (simp add: consistent_def empty_db_def)
next
  case (reachable_register d now data r d')
  then show ?case using consistent_register [of d fw now data] by simp
next
  case (reachable_put_profile d now uid items r' d')
  then show ?case using consistent_put_profile [of d now uid items] by simp
next
  case (reachable_delete d uid)
  from reachable_delete.IH show ?case by (rule consistent_delete_user)
qed

lemma put_profile_keys:
  assumes "consistent d"
  shows "map profile_pk (profiles (snd (put_profile now d uid items))) = map profile_pk (profiles d)
       \<and> map user_id (profiles (snd (put_profile now d uid items))) = map user_id (profiles d)"
proof (cases "find (\<lambda>u. user_pk u = uid) (users d)")
  case None
  then show ?thesis by (simp add: put_profile_def)
next
  case (Some identity)
  then have i: "identity \<in> set (users d)" "user_pk identity = uid"
    using find_Some_set by fastforce+
  from assms i(1) obtain before where before: "before \<in> set (profiles d)"
    "find (\<lambda>p. user_id p = user_pk identity) (profiles d) = Some before"
    by (rule consistent_profile_of_user)
  let ?after = "(fold setattr_userprofile (profile_items items) before)\<lparr>updated_at := now\<rparr>"
  have res: "profiles (snd (put_profile now d uid items)) = update_row profile_pk ?after (profiles d)"
    using put_profile_result(1) [OF assms Some before(2) [unfolded i(2)] refl refl refl, of now items]
    by simp
  have "\<And>r. r \<in> set (profiles d) \<Longrightarrow> profile_pk r = profile_pk ?after \<Longrightarrow> user_id r = user_id ?after"
    using assms before(1) key_unique [of profile_pk "profiles d" before]
    by (auto simp: consistent_def fold_setattr_userprofile_frame)
  then have "map user_id (update_row profile_pk ?after (profiles d)) = map user_id (profiles d)"
    by (rule map_update_row)
  then show ?thesis
    unfolding res by (simp add: map_key_update_row)
qed

lemma example_db_reachable: "reachable example_framework example_db"
  using reachable_register [OF reachable_empty example_registration_result] .

section \<open>Claims about the one-to-one relation and the post-save receivers\<close>

text \<open>
  Claim C7. In every store reachable by registrations, profile updates and deletions of
  identities, every identity has exactly one profile and every profile belongs to an
  identity. The profile of a new identity is created in the registration itself, by the
  receiver of the identity's \<open>post_save\<close> signal; a profile update creates and deletes no
  profile; deleting an identity deletes its profile with it.
\<close>

theorem one_profile_per_identity:
  assumes "reachable fw d"
  shows "(\<forall>u \<in> set (users d). \<exists>p. filter (\<lambda>p. user_id p = user_pk u) (profiles d) = [p])
       \<and> (\<forall>p \<in> set (profiles d). \<exists>u \<in> set (users d). user_pk u = user_id p)
       \<and> (\<forall>now data identity d'. register fw now d data = (Inr identity, d') \<longrightarrow>
             users d' = users d @ [identity]
             \<and> profiles d' = profiles d @ [new_userprofile (next_profile_pk d) (user_pk identity) now])
       \<and> (\<forall>now uid items r d'. put_profile now d uid items = (r, d') \<longrightarrow>
             map profile_pk (profiles d') = map profile_pk (profiles d)
             \<and> map user_id (profiles d') = map user_id (profiles d))
       \<and> (\<forall>uid. users (delete_user d uid) = filter (\<lambda>u. user_pk u \<noteq> uid) (users d)
             \<and> profiles (delete_user d uid) = filter (\<lambda>p. user_id p \<noteq> uid) (profiles d))"
proof -
  have c: "consistent d" using assms by (rule reachable_consistent)
  have one: "\<forall>u \<in> set (users d). \<exists>p. filter (\<lambda>p. user_id p = user_pk u) (profiles d) = [p]"
  proof
    fix u assume "u \<in> set (users d)"
    with c obtain p where p: "p \<in> set (profiles d)" "user_id p = user_pk u"
      by (rule consistent_profile_of_user)
    have "filter (\<lambda>y. user_id y = user_id p) (profiles d) = [p]"
      using c p(1) by (intro filter_key_singleton) (simp add: consistent_def)
    with p(2) show "\<exists>p. filter (\<lambda>p. user_id p = user_pk u) (profiles d) = [p]" by auto
  qed
  have owner: "\<forall>p \<in> set (profiles d). \<exists>u \<in> set (users d). user_pk u = user_id p"
  proof
    fix p assume "p \<in> set (profiles d)"
    with c obtain u where "u \<in> set (users d)" "user_pk u = user_id p"
      by (rule consistent_user_of_profile)
    then show "\<exists>u \<in> set (users d). user_pk u = user_id p" by auto
  qed
  have reg: "\<forall>now data identity d'. register fw now d data = (Inr identity, d') \<longrightarrow>
      users d' = users d @ [identity]
      \<and> profiles d' = profiles d @ [new_userprofile (next_profile_pk d) (user_pk identity) now]"
    using register_cases [OF c] by fastforce
  have put: "\<forall>now uid items r d'. put_profile now d uid items = (r, d') \<longrightarrow>
      map profile_pk (profiles d') = map profile_pk (profiles d)
      \<and> map user_id (profiles d') = map user_id (profiles d)"
    using put_profile_keys [OF c] by (metis snd_conv)
  have del: "\<forall>uid. users (delete_user d uid) = filter (\<lambda>u. user_pk u \<noteq> uid) (users d)
      \<and> profiles (delete_user d uid) = filter (\<lambda>p. user_id p \<noteq> uid) (profiles d)"
    by (simp add: delete_user_def)
  from one owner reg put del show ?thesis by blast
qed

theorem one_profile_per_identity_witness:
  "reachable example_framework example_db
   \<and> filter (\<lambda>p. user_id p = user_pk example_user) (profiles example_db) = [new_userprofile 1 1 10]
   \<and> profiles (delete_user example_db 1) = [] \<and> users (delete_user example_db 1) = []"
  using one_profile_per_identity [OF example_db_reachable] example_db_reachable
  by (simp add: example_db_def example_user_def new_userprofile_def)



end
